theory Spec2Isabelle
  imports Main "HOL-Library.AList" "HOL-Library.Sublist"
begin

section \<open>JavaScript values and objects\<close>

text \<open>
  The debug configuration is a plain JavaScript object.  Its own properties are kept as an
  association list from property names to values; reading a property that is not there
  gives \<open>Undefined\<close>, as in JavaScript.
\<close>

datatype jsval =
    Undefined
  | Null
  | JBool bool
  | JNum nat
  | JStr string
  | JArr "jsval list"
  | JObj "(string \<times> jsval) list"

type_synonym obj = "(string \<times> jsval) list"

text \<open>JavaScript truthiness: \<open>undefined\<close>, \<open>null\<close>, \<open>false\<close>, \<open>0\<close> and the empty
  string are falsy, everything else is truthy.\<close>

fun truthy :: "jsval \<Rightarrow> bool" where
  "truthy Undefined = False"
| "truthy Null = False"
| "truthy (JBool b) = b"
| "truthy (JNum n) = (n \<noteq> 0)"
| "truthy (JStr s) = (s \<noteq> [])"
| "truthy (JArr xs) = True"
| "truthy (JObj ps) = True"

text \<open>\<open>o[k]\<close>, \<open>o.hasOwnProperty(k)\<close>, \<open>o[k] = v\<close> and \<open>delete o[k]\<close>.\<close>

definition getp :: "obj \<Rightarrow> string \<Rightarrow> jsval" where
  "getp ob k = (case map_of ob k of None \<Rightarrow> Undefined | Some v \<Rightarrow> v)"

definition hasOwnProperty :: "obj \<Rightarrow> string \<Rightarrow> bool" where
  "hasOwnProperty ob k = (case map_of ob k of None \<Rightarrow> False | Some v \<Rightarrow> True)"

definition setp :: "string \<Rightarrow> jsval \<Rightarrow> obj \<Rightarrow> obj" where
  "setp k v ob = AList.update k v ob"

definition deletep :: "string \<Rightarrow> obj \<Rightarrow> obj" where
  "deletep k ob = AList.delete k ob"

text \<open>Decimal numerals, for the index properties of strings and arrays and for
  \<open>`${value}`\<close>.\<close>

fun digits :: "nat \<Rightarrow> string" where
  "digits n = (if n < 10 then [''0123456789'' ! n]
               else digits (n div 10) @ [''0123456789'' ! (n mod 10)])"

declare digits.simps [simp del]

text \<open>The own enumerable properties of a value, as \<open>Object.assign\<close> reads them from a
  source: the properties of an object, the indexed elements of an array or of a string,
  nothing for the other primitives.\<close>

fun own_props :: "jsval \<Rightarrow> obj" where
  "own_props (JObj ps) = ps"
| "own_props (JArr xs) = map (\<lambda>i. (digits i, xs ! i)) [0..<length xs]"
| "own_props (JStr s) = map (\<lambda>i. (digits i, JStr [s ! i])) [0..<length s]"
| "own_props v = []"

text \<open>\<open>Object.assign(target, ...sources)\<close>: for every own property key of every source,
  the sources taken from left to right, the value read from the source is written to the
  target.\<close>

definition assign1 :: "obj \<Rightarrow> jsval \<Rightarrow> obj" where
  "assign1 target src =
     foldl (\<lambda>t k. setp k (getp (own_props src) k) t) target (map fst (own_props src))"

definition Object_assign :: "obj \<Rightarrow> jsval list \<Rightarrow> obj" where
  "Object_assign target sources = foldl assign1 target sources"

section \<open>Variable substitution finalisation\<close>

datatype error = EnvFileError string

text \<open>
  Modelled from the spec: \<open>parseEnvFiles\<close> of \<open>src/utils/envUtils.ts\<close>, which is not among
  the sources.  The spec has \<open>envFile\<close> name one path or a list of paths, the contents of
  the files merged with later files overriding earlier ones.  Reading and parsing one file
  is the parameter \<open>parseEnvFile\<close>, which may fail.
\<close>

fun envFilePaths :: "jsval \<Rightarrow> string list" where
  "envFilePaths (JStr p) = [p]"
| "envFilePaths (JArr ps) = concat (map (\<lambda>v. case v of JStr p \<Rightarrow> [p] | _ \<Rightarrow> []) ps)"
| "envFilePaths v = []"

fun parseAll :: "(string \<Rightarrow> error + obj) \<Rightarrow> string list \<Rightarrow> error + obj list" where
  "parseAll parseEnvFile [] = Inr []"
| "parseAll parseEnvFile (p # ps) =
     (case parseEnvFile p of
        Inl e \<Rightarrow> Inl e
      | Inr env \<Rightarrow> (case parseAll parseEnvFile ps of Inl e \<Rightarrow> Inl e | Inr envs \<Rightarrow> Inr (env # envs)))"

definition parseEnvFiles :: "(string \<Rightarrow> error + obj) \<Rightarrow> jsval \<Rightarrow> error + obj" where
  "parseEnvFiles parseEnvFile envFiles =
     (case parseAll parseEnvFile (envFilePaths envFiles) of
        Inl e \<Rightarrow> Inl e
      | Inr fileEnvs \<Rightarrow> Inr (Object_assign [] (map JObj fileEnvs)))"

text \<open>
  \<open>resolveDebugConfigurationWithSubstitutedVariables\<close>.  \<open>goToolsEnvVars\<close> is the object
  returned by \<open>toolExecutionEnvironment(folder?.uri)\<close>.
\<close>

definition resolveDebugConfigurationWithSubstitutedVariables ::
  "obj \<Rightarrow> (string \<Rightarrow> error + obj) \<Rightarrow> obj \<Rightarrow> error + obj" where
  "resolveDebugConfigurationWithSubstitutedVariables goToolsEnvVars parseEnvFile debugConfiguration =
     (case parseEnvFiles parseEnvFile (getp debugConfiguration ''envFile'') of
        Inl e \<Rightarrow> Inl e
      | Inr fileEnvs \<Rightarrow>
          let env = (if truthy (getp debugConfiguration ''env'')
                     then getp debugConfiguration ''env'' else JObj []);
              c1 = setp ''env'' (JObj (Object_assign goToolsEnvVars [JObj fileEnvs, env]))
                     debugConfiguration;
              c2 = setp ''envFile'' Undefined c1
          in Inr c2)"

section \<open>Host services used by the resolver\<close>

text \<open>
  \<open>path.dirname\<close> and \<open>path.isAbsolute\<close> of Node.js, in their POSIX form.  \<open>dirname\<close>
  scans the path from its end down to index 1, skips the trailing slashes and stops at
  the first slash after a character that is not one.
\<close>

fun dirname_scan :: "string \<Rightarrow> nat \<Rightarrow> bool \<Rightarrow> nat option" where
  "dirname_scan path 0 matchedSlash = None"
| "dirname_scan path (Suc i) matchedSlash =
     (if path ! Suc i = CHR ''/''
      then (if \<not> matchedSlash then Some (Suc i) else dirname_scan path i matchedSlash)
      else dirname_scan path i False)"

definition dirname :: "string \<Rightarrow> string" where
  "dirname path =
     (if path = [] then ''.''
      else let hasRoot = (hd path = CHR ''/'') in
        case dirname_scan path (length path - 1) True of
          None \<Rightarrow> (if hasRoot then ''/'' else ''.'')
        | Some e \<Rightarrow> (if hasRoot \<and> e = 1 then ''//'' else take e path))"

definition isAbsolute :: "string \<Rightarrow> bool" where
  "isAbsolute path = (case path of [] \<Rightarrow> False | c # cs \<Rightarrow> c = CHR ''/'')"

text \<open>\<open>String.prototype.endsWith\<close> and \<open>Array.prototype.join(' ')\<close>.\<close>

definition endsWith :: "string \<Rightarrow> string \<Rightarrow> bool" where
  "endsWith s suf = (length suf \<le> length s \<and> drop (length s - length suf) s = suf)"

fun join_sp :: "string list \<Rightarrow> string" where
  "join_sp [] = []"
| "join_sp [x] = x"
| "join_sp (x # y # ys) = x @ '' '' @ join_sp (y # ys)"

text \<open>
  What the resolver reads from its surroundings: the active text editor, the adapter type
  given to the constructor, the module-path table, the \<open>delveConfig\<close> block of the
  settings, \<open>resolvePath\<close> and \<open>getBinPath('dlv')\<close> of \<open>util.ts\<close>, the option parser and
  unparser (\<open>yargs-parser\<close>, \<open>yargs-unparser\<close>), and the global state of
  \<open>stateUtils.ts\<close> (\<open>None\<close> while it has not been set).
\<close>

record editor =
  languageId :: string
  fileName :: string

record host =
  activeTextEditor :: "editor option"
  defaultDebugAdapterType :: string
  packagePathToGoModPathMap :: jsval
  delveConfig :: obj
  resolvePath :: "jsval \<Rightarrow> jsval"
  parse :: "jsval \<Rightarrow> obj"
  unparse :: "obj \<Rightarrow> string list"
  dlvToolPath :: string
  globalState :: "obj option"

text \<open>\<open>getFromGlobalState\<close> of \<open>stateUtils.ts\<close>; \<open>Memento.get\<close> gives the default for a
  key that has no value.\<close>

definition getFromGlobalState :: "obj option \<Rightarrow> string \<Rightarrow> jsval \<Rightarrow> jsval" where
  "getFromGlobalState gs key defaultValue =
     (case gs of
        None \<Rightarrow> defaultValue
      | Some st \<Rightarrow> (if getp st key = Undefined then defaultValue else getp st key))"

definition updateGlobalState :: "obj option \<Rightarrow> string \<Rightarrow> jsval \<Rightarrow> obj option" where
  "updateGlobalState gs key v = (case gs of None \<Rightarrow> None | Some st \<Rightarrow> Some (setp key v st))"

section \<open>Debug configuration resolution\<close>

text \<open>
  \<open>showWarning\<close>: nothing when the key is marked in the global state, otherwise the
  message is shown.  The result lists the warnings shown, each with its key.  The answer
  of the user arrives in a later callback, after \<open>resolveDebugConfiguration\<close> has
  returned; \<open>dontShowAgain\<close> is what that callback does for the answer
  \<open>Don't Show Again\<close>.
\<close>

type_synonym warning = "string \<times> string"

definition showWarning :: "obj option \<Rightarrow> string \<Rightarrow> string \<Rightarrow> warning list" where
  "showWarning gs ignoreWarningKey warningMessage =
     (if truthy (getFromGlobalState gs ignoreWarningKey Undefined) then []
      else [(ignoreWarningKey, warningMessage)])"

definition dontShowAgain :: "obj option \<Rightarrow> string \<Rightarrow> obj option" where
  "dontShowAgain gs ignoreWarningKey = updateGlobalState gs ignoreWarningKey (JBool True)"

definition removeFlag :: "host \<Rightarrow> jsval \<Rightarrow> string \<Rightarrow> jsval \<times> bool" where
  "removeFlag h args flag =
     (let argv = parse h args in
      if truthy (getp argv flag)
      then (JStr (join_sp (unparse h (deletep flag argv))), True)
      else (args, False))"

definition buildFlagsMessage :: string where
  "buildFlagsMessage = ''User specified build flag '--gcflags' in 'buildFlags' is being ignored (see [debugging with build flags](https://github.com/golang/vscode-go/blob/master/docs/debugging.md#specifying-other-build-flags) documentation)''"

definition goflagsMessage :: string where
  "goflagsMessage = ''User specified build flag '--gcflags' in 'GOFLAGS' is being ignored (see [debugging with build flags](https://github.com/golang/vscode-go/blob/master/docs/debugging.md#specifying-other-build-flags) documentation)''"

definition launchRemoteMessage :: string where
  "launchRemoteMessage = ''Request type of 'launch' with mode 'remote' is deprecated, please use request type 'attach' with mode 'remote' instead.''"

definition remotePathAndProgramMessage :: string where
  "remotePathAndProgramMessage = ''Request type of 'attach' with mode 'remote' does not work with 'program' attribute, please use 'cwd' attribute instead.''"

text \<open>Lines 319 to 332: a configuration that is missing, or has no \<open>request\<close>, is read as
  a missing \<open>launch.json\<close>.  \<open>None\<close> is the early \<open>return\<close>.\<close>

definition skeleton :: "host \<Rightarrow> editor \<Rightarrow> obj" where
  "skeleton h e =
     [(''name'', JStr ''Launch''),
      (''type'', JStr (defaultDebugAdapterType h)),
      (''request'', JStr ''launch''),
      (''mode'', JStr ''auto''),
      (''program'', JStr (dirname (fileName e)))]"

definition skeletonDefaulting :: "host \<Rightarrow> obj option \<Rightarrow> obj option" where
  "skeletonDefaulting h debugConfiguration =
     (if (case debugConfiguration of None \<Rightarrow> True | Some c \<Rightarrow> \<not> truthy (getp c ''request''))
      then (case activeTextEditor h of
              None \<Rightarrow> None
            | Some e \<Rightarrow>
                if languageId e \<noteq> ''go'' then None
                else Some (Object_assign (case debugConfiguration of None \<Rightarrow> [] | Some c \<Rightarrow> c)
                             [JObj (skeleton h e)]))
      else debugConfiguration)"

text \<open>Lines 334 to 369: the adapter type, the module-path table, the API version, the
  values copied from \<open>delveConfig\<close>, and \<open>cwd\<close>.\<close>

definition resolveFields :: "host \<Rightarrow> obj \<Rightarrow> obj" where
  "resolveFields h c0 =
     (let c1 = (if \<not> truthy (getp c0 ''type'')
                then setp ''type'' (JStr (defaultDebugAdapterType h)) c0 else c0);
          c2 = setp ''packagePathToGoModPathMap'' (packagePathToGoModPathMap h) c1;
          dlvConfig = delveConfig h;
          useApiV1 = (if hasOwnProperty c2 ''useApiV1'' then getp c2 ''useApiV1'' = JBool True
                      else if hasOwnProperty dlvConfig ''useApiV1''
                           then getp dlvConfig ''useApiV1'' = JBool True
                           else False);
          c3 = (if useApiV1 then setp ''apiVersion'' (JNum 1) c2 else c2);
          c4 = (if \<not> hasOwnProperty c3 ''apiVersion'' \<and> hasOwnProperty dlvConfig ''apiVersion''
                then setp ''apiVersion'' (getp dlvConfig ''apiVersion'') c3 else c3);
          c5 = (if \<not> hasOwnProperty c4 ''dlvLoadConfig'' \<and> hasOwnProperty dlvConfig ''dlvLoadConfig''
                then setp ''dlvLoadConfig'' (getp dlvConfig ''dlvLoadConfig'') c4 else c4);
          c6 = (if \<not> hasOwnProperty c5 ''showGlobalVariables''
                     \<and> hasOwnProperty dlvConfig ''showGlobalVariables''
                then setp ''showGlobalVariables'' (getp dlvConfig ''showGlobalVariables'') c5
                else c5);
          c7 = (if getp c6 ''request'' = JStr ''attach'' \<and> \<not> truthy (getp c6 ''cwd'')
                then setp ''cwd'' (JStr ''${workspaceFolder}'') c6 else c6);
          c8 = (if truthy (getp c7 ''cwd'')
                then setp ''cwd'' (resolvePath h (getp c7 ''cwd'')) c7 else c7)
      in c8)"

text \<open>Lines 371 to 391: \<open>gcflags\<close> is removed from \<open>buildFlags\<close> and from \<open>env.GOFLAGS\<close>,
  with a warning for each.  Only an object \<open>env\<close> has a \<open>GOFLAGS\<close> property.\<close>

definition stripBuildFlags :: "host \<Rightarrow> obj \<Rightarrow> obj \<times> warning list" where
  "stripBuildFlags h c =
     (if truthy (getp c ''buildFlags'')
      then (case removeFlag h (getp c ''buildFlags'') ''gcflags'' of
              (args, removed) \<Rightarrow>
                if removed
                then (setp ''buildFlags'' args c,
                      showWarning (globalState h) ''ignoreDebugGCFlagsWarning'' buildFlagsMessage)
                else (c, []))
      else (c, []))"

definition stripGoflags :: "host \<Rightarrow> obj \<Rightarrow> obj \<times> warning list" where
  "stripGoflags h c =
     (case getp c ''env'' of
        JObj env \<Rightarrow>
          if truthy (getp env ''GOFLAGS'')
          then (case removeFlag h (getp env ''GOFLAGS'') ''gcflags'' of
                  (args, removed) \<Rightarrow>
                    if removed
                    then (setp ''env'' (JObj (setp ''GOFLAGS'' args env)) c,
                          showWarning (globalState h) ''ignoreDebugGCFlagsWarning'' goflagsMessage)
                    else (c, []))
          else (c, [])
      | _ \<Rightarrow> (c, []))"

text \<open>\<open>debugConfiguration['env']['GOFLAGS']\<close>, for stating what \<open>stripGoflags\<close> does.\<close>

definition goflagsOf :: "obj \<Rightarrow> jsval" where
  "goflagsOf c = (case getp c ''env'' of JObj env \<Rightarrow> getp env ''GOFLAGS'' | _ \<Rightarrow> Undefined)"

text \<open>The cases of a flags value in which \<open>removeFlag\<close> decides as intended: the value is
  unset or empty, or its parsed options have a \<open>gcflags\<close> entry with a truthy value, or
  they have no \<open>gcflags\<close> entry.\<close>

definition gcflagsSettled :: "host \<Rightarrow> jsval \<Rightarrow> bool" where
  "gcflagsSettled h v =
     (\<not> truthy v \<or> truthy (getp (parse h v) ''gcflags'')
      \<or> \<not> hasOwnProperty (parse h v) ''gcflags'')"

text \<open>The result of \<open>resolveDebugConfiguration\<close>: the configuration returned (\<open>None\<close> for
  \<open>undefined\<close>), the warnings shown, in order, and the tools whose installation was
  prompted for.\<close>

record resolution =
  resolved :: "obj option"
  warnings :: "warning list"
  prompted :: "string list"

text \<open>Lines 393 to 421: the debugger executable, the mode, and the two warnings on
  \<open>remote\<close>.\<close>

definition concretizeMode :: "host \<Rightarrow> obj \<Rightarrow> obj" where
  "concretizeMode h c =
     (if getp c ''mode'' = JStr ''auto''
      then setp ''mode''
             (JStr (if (case activeTextEditor h of
                          None \<Rightarrow> False
                        | Some e \<Rightarrow> endsWith (fileName e) ''_test.go'')
                    then ''test'' else ''debug'')) c
      else c)"

definition remoteWarnings :: "host \<Rightarrow> obj \<Rightarrow> warning list" where
  "remoteWarnings h c =
     (if getp c ''request'' = JStr ''launch'' \<and> getp c ''mode'' = JStr ''remote''
      then showWarning (globalState h) ''ignoreDebugLaunchRemoteWarning'' launchRemoteMessage
      else [])
     @ (if getp c ''request'' = JStr ''attach'' \<and> getp c ''mode'' = JStr ''remote''
           \<and> truthy (getp c ''program'')
        then showWarning (globalState h) ''ignoreUsingRemotePathAndProgramWarning''
               remotePathAndProgramMessage
        else [])"

definition resolveDebugConfiguration :: "host \<Rightarrow> obj option \<Rightarrow> resolution" where
  "resolveDebugConfiguration h debugConfiguration =
     (case skeletonDefaulting h debugConfiguration of
        None \<Rightarrow> \<lparr>resolved = None, warnings = [], prompted = []\<rparr>
      | Some c0 \<Rightarrow>
          let c1 = resolveFields h c0;
              (c2, w1) = stripBuildFlags h c1;
              (c3, w2) = stripGoflags h c2;
              c4 = setp ''dlvToolPath'' (JStr (dlvToolPath h)) c3
          in if \<not> isAbsolute (dlvToolPath h)
             then \<lparr>resolved = None, warnings = w1 @ w2, prompted = [''dlv'']\<rparr>
             else let c5 = concretizeMode h c4
                  in \<lparr>resolved = Some c5, warnings = w1 @ w2 @ remoteWarnings h c5,
                       prompted = []\<rparr>)"

section \<open>The option parser\<close>

text \<open>
  \<open>yargs-parser\<close> and \<open>yargs-unparser\<close> are libraries outside the repository; the
  resolver takes them through \<open>parse\<close> and \<open>unparse\<close> of the host.  For concrete runs
  the fragment of them that \<open>removeFlag\<close> meets on plain flag strings is written out, as
  called with \<open>'short-option-groups': false\<close>: the string is split at spaces; a token
  \<open>--key=value\<close> or \<open>-key=value\<close> sets \<open>key\<close>; a token \<open>--key\<close> or \<open>-key\<close> takes the
  next token as its value unless that starts with a dash, and is \<open>true\<close> otherwise; any
  other token is positional and goes to \<open>_\<close>.  A value of decimal digits with no leading zero
  is a number (the fragment has no other numerals and no numbers beyond the safe integers).  An
  option given twice collects its values in an array.  The elements of an array
  argument are the tokens.  Quotes, \<open>--no-\<close> negation, dotted and hyphenated keys are
  outside the fragment.  For an argument that is neither a string nor an array the library
  raises; \<open>yargsParse\<close> has no options there, and \<open>yargsParse_exn\<close> below has the error.
\<close>

fun tokenize :: "string \<Rightarrow> string \<Rightarrow> string list" where
  "tokenize [] cur = (if cur = [] then [] else [cur])"
| "tokenize (c # cs) cur =
     (if c = CHR '' '' then (if cur = [] then tokenize cs [] else cur # tokenize cs [])
      else tokenize cs (cur @ [c]))"

definition digit_val :: "char \<Rightarrow> nat" where
  "digit_val c = length (takeWhile (\<lambda>d. d \<noteq> c) ''0123456789'')"

definition coerce :: "string \<Rightarrow> jsval" where
  "coerce t =
     (if t \<noteq> [] \<and> list_all (\<lambda>c. c \<in> set ''0123456789'') t
         \<and> (t = ''0'' \<or> hd t \<noteq> CHR ''0'')
      then JNum (foldl (\<lambda>a c. 10 * a + digit_val c) 0 t)
      else JStr t)"

definition setArg :: "string \<Rightarrow> jsval \<Rightarrow> obj \<Rightarrow> obj" where
  "setArg key v argv =
     (if hasOwnProperty argv key
      then (case getp argv key of
              JArr vs \<Rightarrow> setp key (JArr (vs @ [v])) argv
            | old \<Rightarrow> setp key (JArr [old, v]) argv)
      else setp key v argv)"

definition stripDashes :: "string \<Rightarrow> string" where
  "stripDashes t =
     (case t of
        c # d # cs \<Rightarrow> (if c = CHR ''-'' \<and> d = CHR ''-'' then cs else d # cs)
      | _ \<Rightarrow> drop 1 t)"

definition isKeyValue :: "string \<Rightarrow> bool" where
  "isKeyValue t =
     (case t of
        [] \<Rightarrow> False
      | c # cs \<Rightarrow> c = CHR ''-'' \<and> CHR ''='' \<in> set (stripDashes t)
                  \<and> takeWhile (\<lambda>x. x \<noteq> CHR ''='') (stripDashes t) \<noteq> [])"

definition isFlag :: "string \<Rightarrow> bool" where
  "isFlag t = (case t of [] \<Rightarrow> False | c # cs \<Rightarrow> c = CHR ''-'' \<and> stripDashes t \<noteq> [])"

definition startsWithDash :: "string \<Rightarrow> bool" where
  "startsWithDash t = (case t of [] \<Rightarrow> False | c # cs \<Rightarrow> c = CHR ''-'')"

fun parseTokens :: "string list \<Rightarrow> obj \<Rightarrow> obj" where
  "parseTokens [] argv = argv"
| "parseTokens [t] argv =
     (if isKeyValue t
      then setArg (takeWhile (\<lambda>x. x \<noteq> CHR ''='') (stripDashes t))
             (coerce (drop 1 (dropWhile (\<lambda>x. x \<noteq> CHR ''='') (stripDashes t)))) argv
      else if isFlag t then setArg (stripDashes t) (JBool True) argv
      else setArg ''_'' (coerce t) argv)"
| "parseTokens (t # n # ts) argv =
     (if isKeyValue t
      then parseTokens (n # ts)
             (setArg (takeWhile (\<lambda>x. x \<noteq> CHR ''='') (stripDashes t))
                (coerce (drop 1 (dropWhile (\<lambda>x. x \<noteq> CHR ''='') (stripDashes t)))) argv)
      else if isFlag t
      then (if \<not> startsWithDash n then parseTokens ts (setArg (stripDashes t) (coerce n) argv)
            else parseTokens (n # ts) (setArg (stripDashes t) (JBool True) argv))
      else parseTokens (n # ts) (setArg ''_'' (coerce t) argv))"

definition keyToFlag :: "string \<Rightarrow> string" where
  "keyToFlag key = (if length key = 1 then ''-'' else ''--'') @ key"

fun unparseScalar :: "string \<Rightarrow> jsval \<Rightarrow> string list" where
  "unparseScalar key (JStr v) = [keyToFlag key, v]"
| "unparseScalar key (JBool b) = (if b then [keyToFlag key] else [''--no-'' @ key])"
| "unparseScalar key (JNum n) = [keyToFlag key, digits n]"
| "unparseScalar key v = []"

fun unparseOption :: "string \<Rightarrow> jsval \<Rightarrow> string list" where
  "unparseOption key (JArr vs) = concat (map (unparseScalar key) vs)"
| "unparseOption key v = unparseScalar key v"

fun positional :: "jsval \<Rightarrow> string list" where
  "positional (JArr vs) =
     concat (map (\<lambda>v. case v of JStr t \<Rightarrow> [t] | JNum n \<Rightarrow> [digits n] | _ \<Rightarrow> []) vs)"
| "positional v = (case v of JStr t \<Rightarrow> [t] | JNum n \<Rightarrow> [digits n] | _ \<Rightarrow> [])"

definition yargsParse :: "jsval \<Rightarrow> obj" where
  "yargsParse args =
     (case args of
        JStr str \<Rightarrow> parseTokens (tokenize str []) [(''_'', JArr [])]
      | JArr vs \<Rightarrow> parseTokens (positional (JArr vs)) [(''_'', JArr [])]
      | _ \<Rightarrow> [(''_'', JArr [])])"

definition yargsUnparse :: "obj \<Rightarrow> string list" where
  "yargsUnparse argv =
     positional (getp argv ''_'')
     @ concat (map (\<lambda>(k, v). unparseOption k v) (filter (\<lambda>(k, v). k \<noteq> ''_'') argv))"

text \<open>A host for concrete runs: the given editor, debugger path and global state, the option
  parser above, an empty \<open>delveConfig\<close> and module table, and a \<open>resolvePath\<close> that has
  nothing to expand.\<close>

definition plainHost :: "editor option \<Rightarrow> string \<Rightarrow> obj option \<Rightarrow> host" where
  "plainHost ed dlv gs =
     \<lparr>activeTextEditor = ed, defaultDebugAdapterType = ''go'',
      packagePathToGoModPathMap = JObj [], delveConfig = [],
      resolvePath = (\<lambda>v. v), parse = yargsParse, unparse = yargsUnparse,
      dlvToolPath = dlv, globalState = gs\<rparr>"

section \<open>Resolution with the errors of the helpers\<close>

text \<open>
  \<open>resolveDebugConfiguration\<close> has no \<open>try\<close> and no \<open>throw\<close> of its own, but it calls
  helpers that can raise: \<open>resolvePath\<close> on \<open>cwd\<close> (line 368) and the option parser on
  \<open>buildFlags\<close> and \<open>GOFLAGS\<close> (line 459, from lines 373 and 383); \<open>yargs-parser\<close>
  raises a \<open>TypeError\<close> for an argument that is neither a string nor an array.  Here the
  two helpers return an error or a value, and an error ends the run at the call, as the
  exception does.  The other steps are those of \<open>resolveDebugConfiguration\<close> above:
  \<open>fieldDefaults\<close> is lines 334 to 365.
\<close>

datatype exn = TypeError

definition fieldDefaults :: "host \<Rightarrow> obj \<Rightarrow> obj" where
  "fieldDefaults h c0 =
     (let c1 = (if \<not> truthy (getp c0 ''type'')
                then setp ''type'' (JStr (defaultDebugAdapterType h)) c0 else c0);
          c2 = setp ''packagePathToGoModPathMap'' (packagePathToGoModPathMap h) c1;
          dlvConfig = delveConfig h;
          useApiV1 = (if hasOwnProperty c2 ''useApiV1'' then getp c2 ''useApiV1'' = JBool True
                      else if hasOwnProperty dlvConfig ''useApiV1''
                           then getp dlvConfig ''useApiV1'' = JBool True
                           else False);
          c3 = (if useApiV1 then setp ''apiVersion'' (JNum 1) c2 else c2);
          c4 = (if \<not> hasOwnProperty c3 ''apiVersion'' \<and> hasOwnProperty dlvConfig ''apiVersion''
                then setp ''apiVersion'' (getp dlvConfig ''apiVersion'') c3 else c3);
          c5 = (if \<not> hasOwnProperty c4 ''dlvLoadConfig'' \<and> hasOwnProperty dlvConfig ''dlvLoadConfig''
                then setp ''dlvLoadConfig'' (getp dlvConfig ''dlvLoadConfig'') c4 else c4);
          c6 = (if \<not> hasOwnProperty c5 ''showGlobalVariables''
                     \<and> hasOwnProperty dlvConfig ''showGlobalVariables''
                then setp ''showGlobalVariables'' (getp dlvConfig ''showGlobalVariables'') c5
                else c5);
          c7 = (if getp c6 ''request'' = JStr ''attach'' \<and> \<not> truthy (getp c6 ''cwd'')
                then setp ''cwd'' (JStr ''${workspaceFolder}'') c6 else c6)
      in c7)"







text \<open>The host whose \<open>parse\<close> and \<open>resolvePath\<close> are the two helpers where they return a
  value.\<close>

definition withHelpers ::
  "(jsval \<Rightarrow> exn + obj) \<Rightarrow> (jsval \<Rightarrow> exn + jsval) \<Rightarrow> host \<Rightarrow> host" where
  "withHelpers parse_exn resolvePath_exn h =
     h\<lparr>resolvePath := (\<lambda>v. case resolvePath_exn v of Inl e \<Rightarrow> v | Inr p \<Rightarrow> p),
       parse := (\<lambda>v. case parse_exn v of Inl e \<Rightarrow> [] | Inr argv \<Rightarrow> argv)\<rparr>"

section \<open>The mutex\<close>

text \<open>
  \<open>Mutex\<close> of \<open>debugAdapter/mutex.ts\<close> is built from promises, so the model carries the
  part of the promise machinery the class uses: a store of promises, each pending with its
  list of reactions or fulfilled, and the queue of microtasks.  None of the promises of
  the class is ever rejected.  The \<open>k\<close>-th call of \<open>lock()\<close> has the ticket \<open>k\<close>, and three
  promises belong to it:
  \<^item> \<open>Tail k\<close>, the value of \<open>this.mutex\<close> after the call, made by
    \<open>this.mutex.then(() => new Promise(begin))\<close>; \<open>Tail 0\<close> is the initial
    \<open>Promise.resolve()\<close>;
  \<^item> \<open>Grant k\<close>, the promise the call returns, whose resolving function is stored in
    the variable \<open>begin\<close>;
  \<^item> \<open>Hold k\<close>, the promise made by \<open>new Promise(begin)\<close> when the callback runs; its
    resolving function is the \<open>unlock\<close> handed to the caller.

  A unit of work given to \<open>dispatch\<close> is described by what \<open>fn()\<close> does: it returns a
  plain value, it throws, or it returns a promise that the surroundings settle later.
\<close>

datatype outcome = Returned nat | Threw nat

datatype body = Returns nat | Throws nat | Async

datatype submission = ViaDispatch body | ViaLock

datatype pid = Tail nat | Grant nat | Hold nat

text \<open>
  The microtasks: the callback \<open>() => new Promise(begin)\<close> of ticket \<open>k\<close>; the job by
  which \<open>Tail k\<close>, resolved with the promise \<open>Hold k\<close>, subscribes to it; the reaction
  that fulfils \<open>Tail k\<close> once \<open>Hold k\<close> is fulfilled; the continuation after
  \<open>await this.lock()\<close> (for a caller of \<open>lock()\<close>, the caller's own continuation); and
  the continuation after \<open>await Promise.resolve(fn())\<close>, which runs the \<open>finally\<close> block
  and settles the promise of \<open>dispatch\<close>.
\<close>

datatype job =
    ThenCallback nat
  | Adopt nat
  | Settle nat
  | Acquired nat
  | Completed nat outcome

datatype pstate = Pending "job list" | Fulfilled

datatype event = Begin nat | End nat

datatype bstate = NotYet | InBody | Done

text \<open>
  The state: the promise store, \<open>this.mutex\<close>, the number of calls of \<open>lock()\<close> so
  far, the variable \<open>begin\<close> of each call, what was submitted with each ticket, the
  microtask queue, and what is observed of a run: whether the holder of a ticket is
  before, in or after its critical section, the trace of the sections begun and ended, the
  outcome of each body, and what the promise returned by \<open>dispatch\<close> settled to.
\<close>

record mstate =
  promises :: "pid \<Rightarrow> pstate"
  mutex :: pid
  tickets :: nat
  begin_var :: "nat \<Rightarrow> pid option"
  submitted :: "nat \<Rightarrow> submission"
  holder :: "nat \<Rightarrow> bstate"
  jobs :: "job list"
  trace :: "event list"
  finished :: "nat \<Rightarrow> outcome option"
  result :: "nat \<Rightarrow> outcome option"

definition init :: mstate where
  "init = \<lparr>promises = (\<lambda>p. Pending [])(Tail 0 := Fulfilled), mutex = Tail 0, tickets = 0,
           begin_var = (\<lambda>k. None), submitted = (\<lambda>k. ViaLock), holder = (\<lambda>k. NotYet),
           jobs = [], trace = [], finished = (\<lambda>k. None), result = (\<lambda>k. None)\<rparr>"

text \<open>\<open>p.then(reaction)\<close> and the resolving function of a promise, called with a value
  that is not a promise.\<close>

definition promise_then :: "pid \<Rightarrow> job \<Rightarrow> mstate \<Rightarrow> mstate" where
  "promise_then p j s =
     (case promises s p of
        Fulfilled \<Rightarrow> s\<lparr>jobs := jobs s @ [j]\<rparr>
      | Pending rs \<Rightarrow> s\<lparr>promises := (promises s)(p := Pending (rs @ [j]))\<rparr>)"

definition fulfil :: "pid \<Rightarrow> mstate \<Rightarrow> mstate" where
  "fulfil p s =
     (case promises s p of
        Fulfilled \<Rightarrow> s
      | Pending rs \<Rightarrow> s\<lparr>promises := (promises s)(p := Fulfilled), jobs := jobs s @ rs\<rparr>)"

text \<open>
  \<open>lock()\<close>: \<open>begin\<close> starts as a function that does nothing, \<open>this.mutex\<close> is replaced
  by \<open>this.mutex.then(...)\<close>, and the executor of the returned promise stores its resolving
  function in \<open>begin\<close>.  \<open>awaitLock\<close> is the \<open>await\<close> on the promise returned.
\<close>

definition lock :: "submission \<Rightarrow> mstate \<Rightarrow> mstate" where
  "lock sub s =
     (let k = Suc (tickets s);
          s1 = s\<lparr>tickets := k, submitted := (submitted s)(k := sub)\<rparr>;
          s2 = (promise_then (mutex s1) (ThenCallback k) s1)\<lparr>mutex := Tail k\<rparr>;
          s3 = s2\<lparr>begin_var := (begin_var s2)(k := Some (Grant k))\<rparr>
      in s3)"

definition awaitLock :: "mstate \<Rightarrow> mstate" where
  "awaitLock s = promise_then (Grant (tickets s)) (Acquired (tickets s)) s"

definition dispatch :: "body \<Rightarrow> mstate \<Rightarrow> mstate" where
  "dispatch fn s = awaitLock (lock (ViaDispatch fn) s)"

definition unlock :: "nat \<Rightarrow> mstate \<Rightarrow> mstate" where
  "unlock k s = fulfil (Hold k) s"

text \<open>
  Running one microtask.  The callback of ticket \<open>k\<close> makes \<open>Hold k\<close> and calls
  \<open>begin\<close> with its resolving function, which fulfils \<open>Grant k\<close>; it returns \<open>Hold k\<close>,
  so \<open>Tail k\<close> adopts that promise in a further job.  The continuation of \<open>dispatch\<close>
  enters the \<open>try\<close> block and calls \<open>fn()\<close>: a throw goes through \<open>finally\<close> at once.
\<close>

fun run_job :: "job \<Rightarrow> mstate \<Rightarrow> mstate" where
  "run_job (ThenCallback k) s =
     (let s1 = (case begin_var s k of None \<Rightarrow> s | Some r \<Rightarrow> fulfil r s)
      in s1\<lparr>jobs := jobs s1 @ [Adopt k]\<rparr>)"
| "run_job (Adopt k) s = promise_then (Hold k) (Settle k) s"
| "run_job (Settle k) s = fulfil (Tail k) s"
| "run_job (Acquired k) s =
     (case submitted s k of
        ViaLock \<Rightarrow> s\<lparr>trace := trace s @ [Begin k], holder := (holder s)(k := InBody)\<rparr>
      | ViaDispatch fn \<Rightarrow>
          (case fn of
             Throws e \<Rightarrow>
               (let s1 = s\<lparr>trace := trace s @ [Begin k, End k],
                            holder := (holder s)(k := Done),
                            finished := (finished s)(k \<mapsto> Threw e)\<rparr>;
                    s2 = unlock k s1
                in s2\<lparr>result := (result s2)(k \<mapsto> Threw e)\<rparr>)
           | Returns v \<Rightarrow>
               s\<lparr>trace := trace s @ [Begin k, End k],
                 holder := (holder s)(k := Done),
                 finished := (finished s)(k \<mapsto> Returned v),
                 jobs := jobs s @ [Completed k (Returned v)]\<rparr>
           | Async \<Rightarrow>
               s\<lparr>trace := trace s @ [Begin k], holder := (holder s)(k := InBody)\<rparr>))"
| "run_job (Completed k oc) s =
     (let s1 = unlock k s in s1\<lparr>result := (result s1)(k \<mapsto> oc)\<rparr>)"

text \<open>
  What can happen next: a caller calls \<open>dispatch(fn)\<close> or \<open>lock()\<close>, the event loop runs
  the first microtask, the promise returned by the body of a ticket settles, or the holder
  of a ticket obtained through \<open>lock()\<close> calls its \<open>unlock\<close>.  Any order of these is a
  run; an action that is not possible in a state leaves it as it is.  The only code of a
  caller that runs inside a microtask is \<open>fn()\<close>, and a call of \<open>dispatch\<close> or \<open>lock()\<close>
  made from there touches nothing that microtask touches, so taking the actions one after
  the other loses no behaviour.
\<close>

datatype action =
    Dispatch body
  | Lock
  | Tick
  | Finish nat outcome
  | Unlock nat

fun step :: "action \<Rightarrow> mstate \<Rightarrow> mstate" where
  "step (Dispatch fn) s = dispatch fn s"
| "step Lock s = awaitLock (lock ViaLock s)"
| "step Tick s = (case jobs s of [] \<Rightarrow> s | j # js \<Rightarrow> run_job j (s\<lparr>jobs := js\<rparr>))"
| "step (Finish k oc) s =
     (if holder s k = InBody \<and> submitted s k = ViaDispatch Async
      then s\<lparr>trace := trace s @ [End k],
             holder := (holder s)(k := Done),
             finished := (finished s)(k \<mapsto> oc),
             jobs := jobs s @ [Completed k oc]\<rparr>
      else s)"
| "step (Unlock k) s =
     (if submitted s k = ViaLock \<and> holder s k \<noteq> NotYet
      then unlock k (s\<lparr>trace := (if holder s k = InBody then trace s @ [End k] else trace s),
                       holder := (holder s)(k := Done)\<rparr>)
      else s)"

definition run :: "action list \<Rightarrow> mstate" where
  "run acts = foldl (\<lambda>s a. step a s) init acts"

text \<open>The sections of the tickets \<open>1\<close> to \<open>n\<close>, one after the other.\<close>

definition expected :: "nat \<Rightarrow> event list" where
  "expected n = concat (map (\<lambda>k. [Begin k, End k]) [1..<Suc n])"

text \<open>
  The shape of the reachable states.  The tickets before the current one \<open>c\<close> are
  through, those after it wait, and the current one is at one of these stages: its callback
  is queued; its grant and adoption are queued; it is in its section; its section is over
  and the continuation of \<open>dispatch\<close> is queued; or it has called \<open>unlock\<close>.  The flag
  says whether \<open>Tail c\<close> has subscribed to \<open>Hold c\<close> yet.  \<open>Idle\<close>: all tickets are through.
\<close>

datatype stage =
    Idle
  | Scheduled
  | Granted
  | Held bool
  | Finishing bool outcome
  | Releasing bool

fun stage_jobs :: "nat \<Rightarrow> stage \<Rightarrow> job list" where
  "stage_jobs c Idle = []"
| "stage_jobs c Scheduled = [ThenCallback c]"
| "stage_jobs c Granted = [Acquired c, Adopt c]"
| "stage_jobs c (Held a) = (if a then [] else [Adopt c])"
| "stage_jobs c (Finishing a oc) = (if a then [] else [Adopt c]) @ [Completed c oc]"
| "stage_jobs c (Releasing a) = (if a then [Settle c] else [Adopt c])"

fun stage_trace :: "nat \<Rightarrow> stage \<Rightarrow> event list" where
  "stage_trace c (Held a) = [Begin c]"
| "stage_trace c (Finishing a oc) = [Begin c, End c]"
| "stage_trace c (Releasing a) = [Begin c, End c]"
| "stage_trace c st = []"

fun stage_holder :: "stage \<Rightarrow> bstate" where
  "stage_holder (Held a) = InBody"
| "stage_holder (Finishing a oc) = Done"
| "stage_holder (Releasing a) = Done"
| "stage_holder st = NotYet"

fun granted :: "stage \<Rightarrow> bool" where
  "granted Idle = False"
| "granted Scheduled = False"
| "granted st = True"

fun released :: "stage \<Rightarrow> bool" where
  "released (Releasing a) = True"
| "released st = False"

fun adopted :: "stage \<Rightarrow> bool" where
  "adopted (Held a) = a"
| "adopted (Finishing a oc) = a"
| "adopted st = False"

fun stage_sub :: "stage \<Rightarrow> submission \<Rightarrow> outcome option \<Rightarrow> bool" where
  "stage_sub (Held a) sub fin = (sub = ViaLock \<or> sub = ViaDispatch Async)"
| "stage_sub (Finishing a oc) sub fin =
     (fin = Some oc \<and> (sub = ViaDispatch Async \<or> (\<exists>v. sub = ViaDispatch (Returns v))))"
| "stage_sub st sub fin = True"

fun begun_stage :: "submission \<Rightarrow> stage" where
  "begun_stage ViaLock = Held False"
| "begun_stage (ViaDispatch Async) = Held False"
| "begun_stage (ViaDispatch (Returns v)) = Finishing False (Returned v)"
| "begun_stage (ViaDispatch (Throws e)) = Releasing False"

fun tick_stage :: "nat \<Rightarrow> submission \<Rightarrow> nat \<Rightarrow> stage \<Rightarrow> nat \<times> stage" where
  "tick_stage n sub c Idle = (c, Idle)"
| "tick_stage n sub c Scheduled = (c, Granted)"
| "tick_stage n sub c Granted = (c, begun_stage sub)"
| "tick_stage n sub c (Held a) = (c, Held True)"
| "tick_stage n sub c (Finishing a oc) = (c, if a then Releasing True else Finishing True oc)"
| "tick_stage n sub c (Releasing a) =
     (if a then (Suc c, if c < n then Scheduled else Idle) else (c, Releasing True))"

fun stage_rank :: "stage \<Rightarrow> nat" where
  "stage_rank Idle = 0"
| "stage_rank Scheduled = 5"
| "stage_rank Granted = 4"
| "stage_rank (Held a) = (if a then 0 else 3)"
| "stage_rank (Finishing a oc) = (if a then 2 else 3)"
| "stage_rank (Releasing a) = (if a then 1 else 3)"

definition rank :: "nat \<Rightarrow> nat \<Rightarrow> stage \<Rightarrow> nat" where
  "rank n c st = 6 * (Suc n - c) + stage_rank st"

definition shape :: "nat \<Rightarrow> stage \<Rightarrow> mstate \<Rightarrow> bool" where
  "shape c st s \<longleftrightarrow>
     mutex s = Tail (tickets s) \<and> 1 \<le> c \<and> c \<le> Suc (tickets s)
   \<and> (st = Idle \<longleftrightarrow> c = Suc (tickets s))
   \<and> (\<forall>j. begin_var s j = (if 1 \<le> j \<and> j \<le> tickets s then Some (Grant j) else None))
   \<and> (\<forall>j. promises s (Tail j) =
          (if j < c then Fulfilled
           else Pending (if j < tickets s then [ThenCallback (Suc j)] else [])))
   \<and> (\<forall>j. promises s (Grant j) =
          (if 1 \<le> j \<and> (j < c \<or> j = c \<and> granted st) then Fulfilled
           else if 1 \<le> j \<and> j \<le> tickets s then Pending [Acquired j] else Pending []))
   \<and> (\<forall>j. promises s (Hold j) =
          (if 1 \<le> j \<and> (j < c \<or> j = c \<and> released st) then Fulfilled
           else if j = c \<and> adopted st then Pending [Settle j] else Pending []))
   \<and> jobs s = stage_jobs c st
   \<and> trace s = expected (c - 1) @ stage_trace c st
   \<and> (\<forall>j. holder s j =
          (if 1 \<le> j \<and> j < c then Done else if j = c then stage_holder st else NotYet))
   \<and> stage_sub st (submitted s c) (finished s c)
   \<and> (\<forall>j. result s j =
          (if 1 \<le> j \<and> (j < c \<or> j = c \<and> released st) \<and> submitted s j \<noteq> ViaLock
           then finished s j else None))
   \<and> (\<forall>j. (finished s j = None) = (submitted s j = ViaLock \<or> holder s j \<noteq> Done))"

section \<open>Properties of objects\<close>

lemma map_of_setp: "map_of (setp k v ob) = (map_of ob)(k \<mapsto> v)"
  by (simp add: setp_def update_conv')

lemma getp_setp: "getp (setp k v ob) k' = (if k' = k then v else getp ob k')"
  by (simp add: getp_def map_of_setp)

lemma map_of_assign1_aux:
  "set ks \<subseteq> fst ` set ps \<Longrightarrow>
   map_of (foldl (\<lambda>t k. setp k (getp ps k) t) target ks) k'
     = (if k' \<in> set ks then map_of ps k' else map_of target k')"
proof (induction ks arbitrary: target)
  case Nil
  show ?case by simp
next
  case (Cons k ks)
  from Cons.prems have "k \<in> fst ` set ps" by simp
  then obtain v where v: "map_of ps k = Some v"
    by (metis domD dom_map_of_conv_image_fst)
  then have g: "getp ps k = v" by (simp add: getp_def)
  from Cons.prems have "set ks \<subseteq> fst ` set ps" by simp
  from Cons.IH [OF this, of "setp k v target"] g v show ?case
    by (simp add: map_of_setp)
qed

lemma map_of_assign1: "map_of (assign1 target src) = map_of target ++ map_of (own_props src)"
proof (rule ext)
  fix k'
  have "map_of (assign1 target src) k'
      = (if k' \<in> set (map fst (own_props src)) then map_of (own_props src) k' else map_of target k')"
    unfolding assign1_def by (rule map_of_assign1_aux) simp
  also have "\<dots> = (map_of target ++ map_of (own_props src)) k'"
    by (auto simp: map_add_def map_of_eq_None_iff split: option.splits dest: map_of_SomeD
          intro: rev_image_eqI)
  finally show "map_of (assign1 target src) k' = (map_of target ++ map_of (own_props src)) k'" .
qed

lemma map_of_Object_assign:
  "map_of (Object_assign target sources)
     = foldl (\<lambda>m src. m ++ map_of (own_props src)) (map_of target) sources"
  unfolding Object_assign_def
  by (induction sources arbitrary: target) (simp_all add: map_of_assign1)

lemma getp_Cons [simp]: "getp ((k, v) # ob) k' = (if k = k' then v else getp ob k')"
  by (simp add: getp_def)

lemma getp_Nil [simp]: "getp [] k = Undefined"
  by (simp add: getp_def)

lemma map_of_parseEnvFiles:
  "parseAll pf (envFilePaths ef) = Inr fileEnvs \<Longrightarrow>
   \<exists>fe. parseEnvFiles pf ef = Inr fe \<and> map_of fe = foldl (++) Map.empty (map map_of fileEnvs)"
  apply (simp add: parseEnvFiles_def map_of_Object_assign foldl_map)
  done

section \<open>Environment merging\<close>

text \<open>
  C3.  When every env file named by \<open>envFile\<close> parses, the resolved \<open>env\<close> is the layered
  merge of the tool-execution environment, then the contents of the env files in the order
  given (a later file overriding an earlier one), then the inline \<open>env\<close> of the
  configuration (nothing when it is unset), a later layer overriding an earlier one.  In
  particular the ambient environment \<open>{A: "1"}\<close>, the env-file contents
  \<open>{A: "2", B: "2"}\<close> and the inline env \<open>{B: "3"}\<close> resolve to \<open>{A: "2", B: "3"}\<close>.
\<close>

theorem env_precedence:
  "(parseAll parseEnvFile (envFilePaths (getp c ''envFile'')) = Inr fileEnvs \<longrightarrow>
     (\<exists>c' env'. resolveDebugConfigurationWithSubstitutedVariables amb parseEnvFile c = Inr c'
        \<and> getp c' ''env'' = JObj env'
        \<and> map_of env' = map_of amb ++ foldl (++) Map.empty (map map_of fileEnvs)
             ++ map_of (own_props (if truthy (getp c ''env'') then getp c ''env'' else JObj []))))
   \<and> (\<exists>c'. resolveDebugConfigurationWithSubstitutedVariables [(''A'', JStr ''1'')]
          (\<lambda>p. Inr [(''A'', JStr ''2''), (''B'', JStr ''2'')])
          [(''envFile'', JStr ''.env''), (''env'', JObj [(''B'', JStr ''3'')])] = Inr c'
        \<and> getp c' ''env'' = JObj [(''A'', JStr ''2''), (''B'', JStr ''3'')])"
proof (intro conjI impI)
  assume a: "parseAll parseEnvFile (envFilePaths (getp c ''envFile'')) = Inr fileEnvs"
  from map_of_parseEnvFiles [OF a] obtain fe where
    fe: "parseEnvFiles parseEnvFile (getp c ''envFile'') = Inr fe"
        "map_of fe = foldl (++) Map.empty (map map_of fileEnvs)" by blast
  show "\<exists>c' env'. resolveDebugConfigurationWithSubstitutedVariables amb parseEnvFile c = Inr c'
        \<and> getp c' ''env'' = JObj env'
        \<and> map_of env' = map_of amb ++ foldl (++) Map.empty (map map_of fileEnvs)
             ++ map_of (own_props (if truthy (getp c ''env'') then getp c ''env'' else JObj []))"
    using fe
    by (simp add: resolveDebugConfigurationWithSubstitutedVariables_def Let_def getp_setp
        map_of_Object_assign)
next
  show "\<exists>c'. resolveDebugConfigurationWithSubstitutedVariables [(''A'', JStr ''1'')]
          (\<lambda>p. Inr [(''A'', JStr ''2''), (''B'', JStr ''2'')])
          [(''envFile'', JStr ''.env''), (''env'', JObj [(''B'', JStr ''3'')])] = Inr c'
        \<and> getp c' ''env'' = JObj [(''A'', JStr ''2''), (''B'', JStr ''3'')]"
    by (simp add: resolveDebugConfigurationWithSubstitutedVariables_def parseEnvFiles_def
        Object_assign_def assign1_def setp_def Let_def)
qed

theorem env_precedence_witness:
  "parseAll (\<lambda>p. if p = ''a.env'' then Inr [(''A'', JStr ''2''), (''B'', JStr ''2'')]
                     else Inr [(''A'', JStr ''4'')])
      (envFilePaths (getp [(''envFile'', JArr [JStr ''a.env'', JStr ''b.env'']),
                           (''env'', JObj [(''B'', JStr ''3'')])] ''envFile''))
     = Inr [[(''A'', JStr ''2''), (''B'', JStr ''2'')], [(''A'', JStr ''4'')]]
   \<and> (\<exists>c' env'. resolveDebugConfigurationWithSubstitutedVariables
          [(''A'', JStr ''1''), (''C'', JStr ''1'')]
          (\<lambda>p. if p = ''a.env'' then Inr [(''A'', JStr ''2''), (''B'', JStr ''2'')]
                else Inr [(''A'', JStr ''4'')])
          [(''envFile'', JArr [JStr ''a.env'', JStr ''b.env'']),
           (''env'', JObj [(''B'', JStr ''3'')])] = Inr c'
        \<and> getp c' ''env'' = JObj env'
        \<and> map_of env' ''A'' = Some (JStr ''4'')
        \<and> map_of env' ''B'' = Some (JStr ''3'')
        \<and> map_of env' ''C'' = Some (JStr ''1''))"
proof -
  let ?pf = "\<lambda>p. if p = ''a.env'' then Inr [(''A'', JStr ''2''), (''B'', JStr ''2'')]
                  else Inr [(''A'', JStr ''4'')]"
  let ?c = "[(''envFile'', JArr [JStr ''a.env'', JStr ''b.env'']),
             (''env'', JObj [(''B'', JStr ''3'')])]"
  have h: "parseAll ?pf (envFilePaths (getp ?c ''envFile''))
             = Inr [[(''A'', JStr ''2''), (''B'', JStr ''2'')], [(''A'', JStr ''4'')]]"
    by simp
  from env_precedence [of ?pf ?c _ "[(''A'', JStr ''1''), (''C'', JStr ''1'')]"] h
  obtain c' env' where
    r: "resolveDebugConfigurationWithSubstitutedVariables
          [(''A'', JStr ''1''), (''C'', JStr ''1'')] ?pf ?c = Inr c'"
       "getp c' ''env'' = JObj env'"
       "map_of env' = map_of [(''A'', JStr ''1''), (''C'', JStr ''1'')]
            ++ foldl (++) Map.empty
                 (map map_of [[(''A'', JStr ''2''), (''B'', JStr ''2'')], [(''A'', JStr ''4'')]])
            ++ map_of (own_props (if truthy (getp ?c ''env'') then getp ?c ''env'' else JObj []))"
    by blast
  from r(3) have "map_of env' ''A'' = Some (JStr ''4'')" "map_of env' ''B'' = Some (JStr ''3'')"
     "map_of env' ''C'' = Some (JStr ''1'')"
    by (simp_all add: map_add_def)
  with h r(1,2) show ?thesis by blast
qed

text \<open>
  C4.  Whenever \<open>resolveDebugConfigurationWithSubstitutedVariables\<close> returns, the
  \<open>envFile\<close> property of the returned configuration is \<open>undefined\<close>, whatever it was
  before; and it returns unless reading an env file fails.
\<close>

theorem envFile_cleared:
  "(\<forall>c'. resolveDebugConfigurationWithSubstitutedVariables amb parseEnvFile c = Inr c'
        \<longrightarrow> getp c' ''envFile'' = Undefined)
   \<and> (case parseEnvFiles parseEnvFile (getp c ''envFile'') of
         Inl e \<Rightarrow> resolveDebugConfigurationWithSubstitutedVariables amb parseEnvFile c = Inl e
       | Inr fe \<Rightarrow> \<exists>c'. resolveDebugConfigurationWithSubstitutedVariables amb parseEnvFile c = Inr c')"
  by (auto simp: resolveDebugConfigurationWithSubstitutedVariables_def Let_def getp_setp
      split: sum.splits)

theorem envFile_cleared_witness:
  "(\<exists>c'. resolveDebugConfigurationWithSubstitutedVariables [] (\<lambda>p. Inr [(''A'', JStr ''2'')])
           [(''envFile'', JStr ''a.env'')] = Inr c' \<and> getp c' ''envFile'' = Undefined)
   \<and> (\<exists>c'. resolveDebugConfigurationWithSubstitutedVariables [] (\<lambda>p. Inr [(''A'', JStr ''2'')])
           [(''envFile'', JArr [JStr ''a.env'', JStr ''b.env''])] = Inr c'
         \<and> getp c' ''envFile'' = Undefined)
   \<and> (\<exists>c'. resolveDebugConfigurationWithSubstitutedVariables [] (\<lambda>p. Inr [(''A'', JStr ''2'')])
           [(''name'', JStr ''Launch'')] = Inr c' \<and> getp c' ''envFile'' = Undefined)"
proof -
  let ?pf = "\<lambda>p::string. Inr [(''A'', JStr ''2'')] :: error + obj"
  have a: "\<exists>c'. resolveDebugConfigurationWithSubstitutedVariables [] ?pf c = Inr c'
             \<and> getp c' ''envFile'' = Undefined" for c
  proof -
    have "\<exists>fe. parseEnvFiles ?pf (getp c ''envFile'') = Inr fe"
    proof -
      have "\<exists>es. parseAll ?pf ps = Inr es" for ps
        by (induction ps) auto
      from this [of "envFilePaths (getp c ''envFile'')"] show ?thesis
        by (auto simp: parseEnvFiles_def split: sum.splits)
    qed
    with envFile_cleared [of "[]" ?pf c] show ?thesis
      by (auto split: sum.splits)
  qed
  from a [of "[(''envFile'', JStr ''a.env'')]"]
       a [of "[(''envFile'', JArr [JStr ''a.env'', JStr ''b.env''])]"]
       a [of "[(''name'', JStr ''Launch'')]"]
  show ?thesis by blast
qed

section \<open>Field-level resolution\<close>

lemma getp_resolveFields:
  "k \<notin> {''type'', ''packagePathToGoModPathMap'', ''apiVersion'', ''dlvLoadConfig'',
         ''showGlobalVariables'', ''cwd''} \<Longrightarrow>
   getp (resolveFields h c) k = getp c k"
  by (simp add: resolveFields_def Let_def getp_setp)

lemma getp_stripBuildFlags:
  "k \<noteq> ''buildFlags'' \<Longrightarrow> getp (fst (stripBuildFlags h c)) k = getp c k"
  by (simp add: stripBuildFlags_def getp_setp split: prod.splits)

lemma getp_stripGoflags:
  "k \<noteq> ''env'' \<Longrightarrow> getp (fst (stripGoflags h c)) k = getp c k"
  by (simp add: stripGoflags_def getp_setp split: prod.splits jsval.splits)

lemma getp_concretizeMode:
  "getp (concretizeMode h c) k =
     (if k = ''mode'' \<and> getp c ''mode'' = JStr ''auto''
      then JStr (if (case activeTextEditor h of None \<Rightarrow> False
                     | Some e \<Rightarrow> endsWith (fileName e) ''_test.go'')
                 then ''test'' else ''debug'')
      else getp c k)"
  by (simp add: concretizeMode_def getp_setp)

text \<open>The configuration returned, when one is.\<close>

lemma resolved_Some:
  "resolved (resolveDebugConfiguration h dc) = Some c' \<longleftrightarrow>
     (\<exists>c0. skeletonDefaulting h dc = Some c0 \<and> isAbsolute (dlvToolPath h)
        \<and> c' = concretizeMode h (setp ''dlvToolPath'' (JStr (dlvToolPath h))
                  (fst (stripGoflags h (fst (stripBuildFlags h (resolveFields h c0)))))))"
  by (auto simp: resolveDebugConfiguration_def Let_def split: option.splits prod.splits)

lemma getp_resolved:
  assumes "skeletonDefaulting h dc = Some c0" "isAbsolute (dlvToolPath h)"
    and "k \<notin> {''type'', ''packagePathToGoModPathMap'', ''apiVersion'', ''dlvLoadConfig'',
         ''showGlobalVariables'', ''cwd'', ''buildFlags'', ''env'', ''dlvToolPath'', ''mode''}"
  shows "\<exists>c'. resolved (resolveDebugConfiguration h dc) = Some c' \<and> getp c' k = getp c0 k"
  using assms
  by (simp add: resolved_Some getp_concretizeMode getp_setp getp_stripGoflags
      getp_stripBuildFlags getp_resolveFields)

lemma mode_resolved:
  assumes "skeletonDefaulting h dc = Some c0" "isAbsolute (dlvToolPath h)"
  shows "\<exists>c'. resolved (resolveDebugConfiguration h dc) = Some c' \<and> getp c' ''mode'' =
     (if getp c0 ''mode'' = JStr ''auto''
      then JStr (if (case activeTextEditor h of None \<Rightarrow> False
                     | Some e \<Rightarrow> endsWith (fileName e) ''_test.go'')
                 then ''test'' else ''debug'')
      else getp c0 ''mode'')"
  using assms
  by (simp add: resolved_Some getp_concretizeMode getp_setp getp_stripGoflags
      getp_stripBuildFlags getp_resolveFields)

lemma getp_assign1_skeleton:
  "getp (Object_assign c [JObj (skeleton h e)]) k =
     (if k = ''name'' then JStr ''Launch''
      else if k = ''type'' then JStr (defaultDebugAdapterType h)
      else if k = ''request'' then JStr ''launch''
      else if k = ''mode'' then JStr ''auto''
      else if k = ''program'' then JStr (dirname (fileName e))
      else getp c k)"
  by (simp add: getp_def map_of_Object_assign skeleton_def map_add_def)

text \<open>
  C7.  In a configuration that \<open>resolveDebugConfiguration\<close> returns the mode is never
  \<open>auto\<close>: a configuration that reaches the mode step with mode \<open>auto\<close> gets \<open>test\<close> when
  the file name of the active editor ends with \<open>_test.go\<close> and \<open>debug\<close> otherwise, and any
  other mode is kept.
\<close>

theorem mode_concretization:
  assumes "resolved (resolveDebugConfiguration h dc) = Some c'"
  shows "getp c' ''mode'' \<noteq> JStr ''auto''
    \<and> (\<exists>c0. skeletonDefaulting h dc = Some c0
          \<and> getp c' ''mode'' =
              (if getp c0 ''mode'' = JStr ''auto''
               then (case activeTextEditor h of
                       None \<Rightarrow> JStr ''debug''
                     | Some e \<Rightarrow> if endsWith (fileName e) ''_test.go''
                                 then JStr ''test'' else JStr ''debug'')
               else getp c0 ''mode''))"
proof -
  from assms obtain c0 where c0: "skeletonDefaulting h dc = Some c0" "isAbsolute (dlvToolPath h)"
    by (auto simp: resolved_Some)
  from mode_resolved [OF c0] assms
  have m: "getp c' ''mode'' =
     (if getp c0 ''mode'' = JStr ''auto''
      then JStr (if (case activeTextEditor h of None \<Rightarrow> False
                     | Some e \<Rightarrow> endsWith (fileName e) ''_test.go'')
                 then ''test'' else ''debug'')
      else getp c0 ''mode'')" by auto
  then have "getp c' ''mode'' \<noteq> JStr ''auto''" by (auto split: if_splits)
  moreover from m have "getp c' ''mode'' =
              (if getp c0 ''mode'' = JStr ''auto''
               then (case activeTextEditor h of
                       None \<Rightarrow> JStr ''debug''
                     | Some e \<Rightarrow> if endsWith (fileName e) ''_test.go''
                                 then JStr ''test'' else JStr ''debug'')
               else getp c0 ''mode'')"
    by (auto split: option.splits)
  ultimately show ?thesis using c0 by blast
qed

lemmas run_defs =
  resolveDebugConfiguration_def skeletonDefaulting_def skeleton_def resolveFields_def
  stripBuildFlags_def stripGoflags_def removeFlag_def concretizeMode_def remoteWarnings_def
  showWarning_def getFromGlobalState_def plainHost_def Object_assign_def assign1_def
  setp_def deletep_def hasOwnProperty_def isAbsolute_def endsWith_def Let_def
  yargsParse_def yargsUnparse_def setArg_def coerce_def isKeyValue_def isFlag_def
  stripDashes_def startsWithDash_def keyToFlag_def digit_val_def

lemma dirname_ws: "dirname ''/ws/main.go'' = ''/ws''"
  by (simp add: dirname_def eval_nat_numeral)

theorem mode_concretization_witness:
  "(\<exists>c'. resolved (resolveDebugConfiguration
            (plainHost (Some \<lparr>languageId = ''go'', fileName = ''/ws/foo_test.go''\<rparr>)
               ''/go/bin/dlv'' None)
            (Some [(''request'', JStr ''launch''), (''mode'', JStr ''auto'')])) = Some c'
        \<and> getp c' ''mode'' = JStr ''test'')
   \<and> (\<exists>c'. resolved (resolveDebugConfiguration
            (plainHost (Some \<lparr>languageId = ''go'', fileName = ''/ws/main.go''\<rparr>)
               ''/go/bin/dlv'' None)
            (Some [(''request'', JStr ''launch''), (''mode'', JStr ''auto'')])) = Some c'
        \<and> getp c' ''mode'' = JStr ''debug'')"
proof -
  let ?dc = "Some [(''request'', JStr ''launch''), (''mode'', JStr ''auto'')]"
  let ?h1 = "plainHost (Some \<lparr>languageId = ''go'', fileName = ''/ws/foo_test.go''\<rparr>)
               ''/go/bin/dlv'' None"
  let ?h2 = "plainHost (Some \<lparr>languageId = ''go'', fileName = ''/ws/main.go''\<rparr>)
               ''/go/bin/dlv'' None"
  have s1: "skeletonDefaulting ?h1 ?dc = ?dc" and s2: "skeletonDefaulting ?h2 ?dc = ?dc"
    by (simp_all add: skeletonDefaulting_def)
  have "\<exists>c'. resolved (resolveDebugConfiguration ?h1 ?dc) = Some c'"
    by (simp add: resolved_Some s1) (simp add: plainHost_def isAbsolute_def)
  then obtain c1 where c1: "resolved (resolveDebugConfiguration ?h1 ?dc) = Some c1" ..
  from mode_concretization [OF c1] have m1: "getp c1 ''mode'' = JStr ''test''"
    by (simp add: s1) (simp add: plainHost_def endsWith_def)
  have "\<exists>c'. resolved (resolveDebugConfiguration ?h2 ?dc) = Some c'"
    by (simp add: resolved_Some s2) (simp add: plainHost_def isAbsolute_def)
  then obtain c2 where c2: "resolved (resolveDebugConfiguration ?h2 ?dc) = Some c2" ..
  from mode_concretization [OF c2] have m2: "getp c2 ''mode'' = JStr ''debug''"
    by (simp add: s2) (simp add: plainHost_def endsWith_def)
  from c1 m1 c2 m2 show ?thesis by blast
qed

text \<open>
  C8.  With no user configuration and an active Go file \<open>/ws/main.go\<close>, the skeleton
  configuration has request \<open>launch\<close>, mode \<open>auto\<close>, the default adapter type, and the
  program \<open>/ws\<close>, the directory of the file.  The configuration returned from it, when
  the debugger is found, keeps request and program and has the mode \<open>debug\<close>.
\<close>

theorem skeleton_defaulting:
  assumes "activeTextEditor h = Some e" and "languageId e = ''go''"
    and "fileName e = ''/ws/main.go''"
  shows "\<exists>sk. skeletonDefaulting h None = Some sk
      \<and> getp sk ''request'' = JStr ''launch''
      \<and> getp sk ''mode'' = JStr ''auto''
      \<and> getp sk ''type'' = JStr (defaultDebugAdapterType h)
      \<and> getp sk ''program'' = JStr ''/ws''
      \<and> (if isAbsolute (dlvToolPath h)
         then \<exists>c'. resolved (resolveDebugConfiguration h None) = Some c'
                \<and> getp c' ''request'' = JStr ''launch''
                \<and> getp c' ''program'' = JStr ''/ws''
                \<and> getp c' ''mode'' = JStr ''debug''
         else resolved (resolveDebugConfiguration h None) = None)"
proof -
  let ?sk = "Object_assign [] [JObj (skeleton h e)]"
  have sk: "skeletonDefaulting h None = Some ?sk"
    using assms by (simp add: skeletonDefaulting_def)
  have f: "getp ?sk ''request'' = JStr ''launch''" "getp ?sk ''mode'' = JStr ''auto''"
    "getp ?sk ''type'' = JStr (defaultDebugAdapterType h)" "getp ?sk ''program'' = JStr ''/ws''"
    using assms by (simp_all add: getp_assign1_skeleton dirname_ws)
  have "\<exists>c'. resolved (resolveDebugConfiguration h None) = Some c'
                \<and> getp c' ''request'' = JStr ''launch''
                \<and> getp c' ''program'' = JStr ''/ws''
                \<and> getp c' ''mode'' = JStr ''debug''" if abs: "isAbsolute (dlvToolPath h)"
  proof -
    from mode_resolved [OF sk abs] obtain c' where
      c': "resolved (resolveDebugConfiguration h None) = Some c'" "getp c' ''mode'' = JStr ''debug''"
      using assms by (auto simp: f endsWith_def)
    from getp_resolved [OF sk abs, of "''request''"] getp_resolved [OF sk abs, of "''program''"] c'
    show ?thesis by (auto simp: f)
  qed
  moreover have "resolved (resolveDebugConfiguration h None) = None" if "\<not> isAbsolute (dlvToolPath h)"
    using that by (simp add: resolveDebugConfiguration_def sk Let_def split: prod.splits)
  ultimately show ?thesis using sk f by auto
qed

theorem skeleton_defaulting_witness:
  "activeTextEditor (plainHost (Some \<lparr>languageId = ''go'', fileName = ''/ws/main.go''\<rparr>)
       ''/go/bin/dlv'' None) = Some \<lparr>languageId = ''go'', fileName = ''/ws/main.go''\<rparr>
   \<and> (\<exists>sk. skeletonDefaulting (plainHost (Some \<lparr>languageId = ''go'', fileName = ''/ws/main.go''\<rparr>)
          ''/go/bin/dlv'' None) None = Some sk
      \<and> getp sk ''request'' = JStr ''launch''
      \<and> getp sk ''mode'' = JStr ''auto''
      \<and> getp sk ''type'' = JStr ''go''
      \<and> getp sk ''program'' = JStr ''/ws'')
   \<and> (\<exists>c'. resolved (resolveDebugConfiguration
          (plainHost (Some \<lparr>languageId = ''go'', fileName = ''/ws/main.go''\<rparr>)
             ''/go/bin/dlv'' None) None) = Some c'
      \<and> getp c' ''program'' = JStr ''/ws'' \<and> getp c' ''mode'' = JStr ''debug'')"
proof -
  let ?e = "\<lparr>languageId = ''go'', fileName = ''/ws/main.go''\<rparr>"
  let ?h = "plainHost (Some ?e) ''/go/bin/dlv'' None"
  have a: "activeTextEditor ?h = Some ?e" by (simp add: plainHost_def)
  have t: "defaultDebugAdapterType ?h = ''go''" "isAbsolute (dlvToolPath ?h)"
    by (simp_all add: plainHost_def isAbsolute_def)
  from skeleton_defaulting [OF a] t a show ?thesis by auto
qed

text \<open>
  C10.  A configuration with a request and the mode \<open>auto\<close>, resolved while no editor is
  active and the debugger is found, gets the mode \<open>debug\<close>.
\<close>

theorem auto_without_editor:
  assumes "dc = Some c" and "truthy (getp c ''request'')" and "getp c ''mode'' = JStr ''auto''"
    and "activeTextEditor h = None" and "isAbsolute (dlvToolPath h)"
  shows "\<exists>c'. resolved (resolveDebugConfiguration h dc) = Some c'
           \<and> getp c' ''mode'' = JStr ''debug''"
proof -
  from assms have sk: "skeletonDefaulting h dc = Some c"
    by (simp add: skeletonDefaulting_def)
  from mode_resolved [OF sk assms(5)] assms(3,4) show ?thesis by simp
qed

theorem auto_without_editor_witness:
  "truthy (getp [(''request'', JStr ''launch''), (''mode'', JStr ''auto'')] ''request'')
   \<and> getp [(''request'', JStr ''launch''), (''mode'', JStr ''auto'')] ''mode'' = JStr ''auto''
   \<and> activeTextEditor (plainHost None ''/go/bin/dlv'' None) = None
   \<and> isAbsolute (dlvToolPath (plainHost None ''/go/bin/dlv'' None))
   \<and> (\<exists>c'. resolved (resolveDebugConfiguration (plainHost None ''/go/bin/dlv'' None)
                (Some [(''request'', JStr ''launch''), (''mode'', JStr ''auto'')])) = Some c'
           \<and> getp c' ''mode'' = JStr ''debug'')"
proof -
  let ?c = "[(''request'', JStr ''launch''), (''mode'', JStr ''auto'')]"
  let ?h = "plainHost None ''/go/bin/dlv'' None"
  have a: "truthy (getp ?c ''request'')" "getp ?c ''mode'' = JStr ''auto''"
    "activeTextEditor ?h = None" "isAbsolute (dlvToolPath ?h)"
    by (simp_all add: plainHost_def isAbsolute_def)
  from auto_without_editor [OF refl a] a show ?thesis by blast
qed

lemma showWarning_dismissed: "showWarning (dontShowAgain (Some st) k) k m = []"
  by (simp add: showWarning_def dontShowAgain_def updateGlobalState_def getFromGlobalState_def
      getp_setp)

lemma showWarning_cases:
  "showWarning gs k m = (if truthy (getFromGlobalState gs k Undefined) then [] else [(k, m)])"
  by (simp add: showWarning_def)

lemma stripBuildFlags_eq:
  "stripBuildFlags h c =
     (if truthy (getp c ''buildFlags'') \<and> snd (removeFlag h (getp c ''buildFlags'') ''gcflags'')
      then (setp ''buildFlags'' (fst (removeFlag h (getp c ''buildFlags'') ''gcflags'')) c,
            showWarning (globalState h) ''ignoreDebugGCFlagsWarning'' buildFlagsMessage)
      else (c, []))"
  by (simp add: stripBuildFlags_def split: prod.splits)

lemma stripGoflags_eq:
  "snd (stripGoflags h c) =
     (if truthy (goflagsOf c) \<and> snd (removeFlag h (goflagsOf c) ''gcflags'')
      then showWarning (globalState h) ''ignoreDebugGCFlagsWarning'' goflagsMessage
      else [])"
  by (simp add: stripGoflags_def goflagsOf_def split: prod.splits jsval.splits)

lemma goflagsOf_cong: "getp c ''env'' = getp c' ''env'' \<Longrightarrow> goflagsOf c = goflagsOf c'"
  by (simp add: goflagsOf_def)

lemma warnings_resolve:
  assumes "skeletonDefaulting h dc = Some c0"
  shows "\<exists>ws. warnings (resolveDebugConfiguration h dc) =
      (if truthy (getp c0 ''buildFlags'') \<and> snd (removeFlag h (getp c0 ''buildFlags'') ''gcflags'')
       then showWarning (globalState h) ''ignoreDebugGCFlagsWarning'' buildFlagsMessage else [])
    @ (if truthy (goflagsOf c0) \<and> snd (removeFlag h (goflagsOf c0) ''gcflags'')
       then showWarning (globalState h) ''ignoreDebugGCFlagsWarning'' goflagsMessage else [])
    @ ws
    \<and> set ws \<subseteq> {(''ignoreDebugLaunchRemoteWarning'', launchRemoteMessage),
                 (''ignoreUsingRemotePathAndProgramWarning'', remotePathAndProgramMessage)}"
proof -
  let ?c1 = "resolveFields h c0"
  let ?c2 = "fst (stripBuildFlags h ?c1)"
  have bf: "getp ?c1 ''buildFlags'' = getp c0 ''buildFlags''"
    by (simp add: getp_resolveFields)
  have gf: "goflagsOf ?c2 = goflagsOf c0"
    by (rule goflagsOf_cong) (simp add: getp_stripBuildFlags getp_resolveFields)
  have w1: "snd (stripBuildFlags h ?c1) =
      (if truthy (getp c0 ''buildFlags'') \<and> snd (removeFlag h (getp c0 ''buildFlags'') ''gcflags'')
       then showWarning (globalState h) ''ignoreDebugGCFlagsWarning'' buildFlagsMessage else [])"
    by (simp add: stripBuildFlags_eq bf)
  have w2: "snd (stripGoflags h ?c2) =
      (if truthy (goflagsOf c0) \<and> snd (removeFlag h (goflagsOf c0) ''gcflags'')
       then showWarning (globalState h) ''ignoreDebugGCFlagsWarning'' goflagsMessage else [])"
    by (simp add: stripGoflags_eq gf)
  have rw: "set (remoteWarnings h c) \<subseteq> {(''ignoreDebugLaunchRemoteWarning'', launchRemoteMessage),
                 (''ignoreUsingRemotePathAndProgramWarning'', remotePathAndProgramMessage)}" for c
    by (auto simp: remoteWarnings_def showWarning_def)
  have "warnings (resolveDebugConfiguration h dc) =
      snd (stripBuildFlags h ?c1) @ snd (stripGoflags h ?c2)
      @ (if isAbsolute (dlvToolPath h)
         then remoteWarnings h (concretizeMode h (setp ''dlvToolPath'' (JStr (dlvToolPath h))
                  (fst (stripGoflags h ?c2)))) else [])"
    using assms by (simp add: resolveDebugConfiguration_def Let_def split: prod.splits)
  with w1 w2 rw show ?thesis
    by (cases "isAbsolute (dlvToolPath h)") (simp_all del: showWarning_def)
qed

lemma removed_iff: "snd (removeFlag h v flag) = truthy (getp (parse h v) flag)"
  by (simp add: removeFlag_def Let_def)

lemma fst_removeFlag:
  "fst (removeFlag h v flag) =
     (if truthy (getp (parse h v) flag) then JStr (join_sp (unparse h (deletep flag (parse h v))))
      else v)"
  by (simp add: removeFlag_def Let_def)

lemma filter_key_showWarning:
  "filter (\<lambda>w. fst w = k) (showWarning gs k m) = showWarning gs k m"
  by (simp add: showWarning_def)

lemma gcflags_removed:
  assumes sk: "skeletonDefaulting h dc = Some c0"
  shows "(if isAbsolute (dlvToolPath h)
          then \<exists>c'. resolved (resolveDebugConfiguration h dc) = Some c'
                 \<and> getp c' ''buildFlags'' =
                     (if truthy (getp c0 ''buildFlags'')
                         \<and> truthy (getp (parse h (getp c0 ''buildFlags'')) ''gcflags'')
                      then JStr (join_sp (unparse h
                             (deletep ''gcflags'' (parse h (getp c0 ''buildFlags'')))))
                      else getp c0 ''buildFlags'')
          else resolved (resolveDebugConfiguration h dc) = None)
     \<and> filter (\<lambda>w. fst w = ''ignoreDebugGCFlagsWarning'')
          (warnings (resolveDebugConfiguration h dc)) =
        (if truthy (getFromGlobalState (globalState h) ''ignoreDebugGCFlagsWarning'' Undefined)
         then []
         else (if truthy (getp c0 ''buildFlags'')
                  \<and> truthy (getp (parse h (getp c0 ''buildFlags'')) ''gcflags'')
               then [(''ignoreDebugGCFlagsWarning'', buildFlagsMessage)] else [])
            @ (if truthy (goflagsOf c0) \<and> truthy (getp (parse h (goflagsOf c0)) ''gcflags'')
               then [(''ignoreDebugGCFlagsWarning'', goflagsMessage)] else []))"
proof (intro conjI)
  let ?c1 = "resolveFields h c0"
  have bf: "getp ?c1 ''buildFlags'' = getp c0 ''buildFlags''"
    by (simp add: getp_resolveFields)
  have b: "getp (fst (stripBuildFlags h ?c1)) ''buildFlags'' =
             (if truthy (getp c0 ''buildFlags'')
                 \<and> truthy (getp (parse h (getp c0 ''buildFlags'')) ''gcflags'')
              then JStr (join_sp (unparse h
                     (deletep ''gcflags'' (parse h (getp c0 ''buildFlags'')))))
              else getp c0 ''buildFlags'')"
    by (simp add: stripBuildFlags_eq bf removed_iff fst_removeFlag getp_setp)
  show "if isAbsolute (dlvToolPath h)
          then \<exists>c'. resolved (resolveDebugConfiguration h dc) = Some c'
                 \<and> getp c' ''buildFlags'' =
                     (if truthy (getp c0 ''buildFlags'')
                         \<and> truthy (getp (parse h (getp c0 ''buildFlags'')) ''gcflags'')
                      then JStr (join_sp (unparse h
                             (deletep ''gcflags'' (parse h (getp c0 ''buildFlags'')))))
                      else getp c0 ''buildFlags'')
          else resolved (resolveDebugConfiguration h dc) = None"
  proof (cases "isAbsolute (dlvToolPath h)")
    case True
    then show ?thesis
      using sk b by (simp add: resolved_Some getp_concretizeMode getp_setp getp_stripGoflags)
  next
    case False
    then show ?thesis
      using sk by (simp add: resolveDebugConfiguration_def Let_def split: prod.splits)
  qed
next
  from warnings_resolve [OF sk] obtain ws where
    w: "warnings (resolveDebugConfiguration h dc) =
      (if truthy (getp c0 ''buildFlags'') \<and> snd (removeFlag h (getp c0 ''buildFlags'') ''gcflags'')
       then showWarning (globalState h) ''ignoreDebugGCFlagsWarning'' buildFlagsMessage else [])
    @ (if truthy (goflagsOf c0) \<and> snd (removeFlag h (goflagsOf c0) ''gcflags'')
       then showWarning (globalState h) ''ignoreDebugGCFlagsWarning'' goflagsMessage else [])
    @ ws"
    and ws: "set ws \<subseteq> {(''ignoreDebugLaunchRemoteWarning'', launchRemoteMessage),
                 (''ignoreUsingRemotePathAndProgramWarning'', remotePathAndProgramMessage)}"
    by blast
  from ws have "filter (\<lambda>w. fst w = ''ignoreDebugGCFlagsWarning'') ws = []"
    by (auto simp: filter_empty_conv)
  with w show "filter (\<lambda>w. fst w = ''ignoreDebugGCFlagsWarning'')
          (warnings (resolveDebugConfiguration h dc)) =
        (if truthy (getFromGlobalState (globalState h) ''ignoreDebugGCFlagsWarning'' Undefined)
         then []
         else (if truthy (getp c0 ''buildFlags'')
                  \<and> truthy (getp (parse h (getp c0 ''buildFlags'')) ''gcflags'')
               then [(''ignoreDebugGCFlagsWarning'', buildFlagsMessage)] else [])
            @ (if truthy (goflagsOf c0) \<and> truthy (getp (parse h (goflagsOf c0)) ''gcflags'')
               then [(''ignoreDebugGCFlagsWarning'', goflagsMessage)] else []))"
    by (simp add: removed_iff showWarning_def)
qed

lemma truthy_hasOwnProperty: "truthy (getp ob k) \<Longrightarrow> hasOwnProperty ob k"
  by (auto simp: getp_def hasOwnProperty_def split: option.splits)

lemma settled_entry:
  "gcflagsSettled h v \<Longrightarrow>
   (truthy v \<and> truthy (getp (parse h v) ''gcflags''))
     = (truthy v \<and> hasOwnProperty (parse h v) ''gcflags'')"
  by (auto simp: gcflagsSettled_def dest: truthy_hasOwnProperty)

text \<open>
  C5, as amended.  For a configuration that passes the skeleton step, with \<open>buildFlags\<close>
  and \<open>env.GOFLAGS\<close> each unset or empty, or parsed to options that have a \<open>gcflags\<close>
  entry with a truthy value or no \<open>gcflags\<close> entry: when \<open>buildFlags\<close> is set and its
  options have a \<open>gcflags\<close> entry, the returned \<open>buildFlags\<close> is the remaining options,
  unparsed and joined by spaces; when it has none, \<open>buildFlags\<close> is left as it was.  The
  warnings shown with the key \<open>ignoreDebugGCFlagsWarning\<close> are: none when the key is marked
  in the global state; otherwise one for \<open>buildFlags\<close> when it had a \<open>gcflags\<close> entry, and
  one more, with the same key, when \<open>env.GOFLAGS\<close> had one.
\<close>

theorem gcflags_stripped:
  assumes sk: "skeletonDefaulting h dc = Some c0"
    and bf: "gcflagsSettled h (getp c0 ''buildFlags'')"
    and gf: "gcflagsSettled h (goflagsOf c0)"
  shows "(if isAbsolute (dlvToolPath h)
          then \<exists>c'. resolved (resolveDebugConfiguration h dc) = Some c'
                 \<and> getp c' ''buildFlags'' =
                     (if truthy (getp c0 ''buildFlags'')
                         \<and> hasOwnProperty (parse h (getp c0 ''buildFlags'')) ''gcflags''
                      then JStr (join_sp (unparse h
                             (deletep ''gcflags'' (parse h (getp c0 ''buildFlags'')))))
                      else getp c0 ''buildFlags'')
          else resolved (resolveDebugConfiguration h dc) = None)
     \<and> filter (\<lambda>w. fst w = ''ignoreDebugGCFlagsWarning'')
          (warnings (resolveDebugConfiguration h dc)) =
        (if truthy (getFromGlobalState (globalState h) ''ignoreDebugGCFlagsWarning'' Undefined)
         then []
         else (if truthy (getp c0 ''buildFlags'')
                  \<and> hasOwnProperty (parse h (getp c0 ''buildFlags'')) ''gcflags''
               then [(''ignoreDebugGCFlagsWarning'', buildFlagsMessage)] else [])
            @ (if truthy (goflagsOf c0) \<and> hasOwnProperty (parse h (goflagsOf c0)) ''gcflags''
               then [(''ignoreDebugGCFlagsWarning'', goflagsMessage)] else []))"
proof -
  note e = settled_entry [OF bf] settled_entry [OF gf]
  from gcflags_removed [OF sk, unfolded e] show ?thesis .
qed

theorem gcflags_stripped_witness:
  "skeletonDefaulting (plainHost None ''/go/bin/dlv'' (Some []))
      (Some [(''request'', JStr ''launch''), (''buildFlags'', JStr ''-gcflags=-N -race'')])
     = Some [(''request'', JStr ''launch''), (''buildFlags'', JStr ''-gcflags=-N -race'')]
   \<and> gcflagsSettled (plainHost None ''/go/bin/dlv'' (Some [])) (JStr ''-gcflags=-N -race'')
   \<and> gcflagsSettled (plainHost None ''/go/bin/dlv'' (Some [])) (JStr ''-race'')
   \<and> gcflagsSettled (plainHost None ''/go/bin/dlv'' (Some [])) Undefined
   \<and> (\<exists>c'. resolved (resolveDebugConfiguration (plainHost None ''/go/bin/dlv'' (Some []))
          (Some [(''request'', JStr ''launch''), (''buildFlags'', JStr ''-gcflags=-N -race'')]))
        = Some c' \<and> getp c' ''buildFlags'' = JStr ''--race'')
   \<and> filter (\<lambda>w. fst w = ''ignoreDebugGCFlagsWarning'')
        (warnings (resolveDebugConfiguration (plainHost None ''/go/bin/dlv'' (Some []))
          (Some [(''request'', JStr ''launch''), (''buildFlags'', JStr ''-gcflags=-N -race'')])))
       = [(''ignoreDebugGCFlagsWarning'', buildFlagsMessage)]
   \<and> (\<exists>c'. resolved (resolveDebugConfiguration (plainHost None ''/go/bin/dlv'' (Some []))
          (Some [(''request'', JStr ''launch''), (''buildFlags'', JStr ''-race'')]))
        = Some c' \<and> getp c' ''buildFlags'' = JStr ''-race'')
   \<and> filter (\<lambda>w. fst w = ''ignoreDebugGCFlagsWarning'')
        (warnings (resolveDebugConfiguration (plainHost None ''/go/bin/dlv'' (Some []))
          (Some [(''request'', JStr ''launch''), (''buildFlags'', JStr ''-race'')])))
       = []"
proof -
  let ?h = "plainHost None ''/go/bin/dlv'' (Some [])"
  let ?c = "[(''request'', JStr ''launch''), (''buildFlags'', JStr ''-gcflags=-N -race'')]"
  let ?d = "[(''request'', JStr ''launch''), (''buildFlags'', JStr ''-race'')]"
  have sk: "skeletonDefaulting ?h (Some ?c) = Some ?c" "skeletonDefaulting ?h (Some ?d) = Some ?d"
    by (simp_all add: skeletonDefaulting_def)
  have h: "isAbsolute (dlvToolPath ?h)" "parse ?h = yargsParse" "unparse ?h = yargsUnparse"
    "globalState ?h = Some []"
    by (simp_all add: plainHost_def isAbsolute_def)
  have p: "yargsParse (JStr ''-gcflags=-N -race'')
             = [(''_'', JArr []), (''gcflags'', JStr ''-N''), (''race'', JBool True)]"
    "yargsParse (JStr ''-race'') = [(''_'', JArr []), (''race'', JBool True)]"
    by (simp_all add: run_defs)
  have u: "join_sp (yargsUnparse [(''_'', JArr []), (''race'', JBool True)]) = ''--race''"
    by (simp add: run_defs)
  have s: "gcflagsSettled ?h (JStr ''-gcflags=-N -race'')" "gcflagsSettled ?h (JStr ''-race'')"
    "gcflagsSettled ?h Undefined"
    by (simp_all add: gcflagsSettled_def h p hasOwnProperty_def)
  have g: "goflagsOf ?c = Undefined" "goflagsOf ?d = Undefined"
    by (simp_all add: goflagsOf_def)
  have b: "getp ?c ''buildFlags'' = JStr ''-gcflags=-N -race''"
    "getp ?d ''buildFlags'' = JStr ''-race''" by simp_all
  from gcflags_stripped [OF sk(1)] s
  have 1: "(\<exists>c'. resolved (resolveDebugConfiguration ?h (Some ?c)) = Some c'
              \<and> getp c' ''buildFlags'' = JStr ''--race'')
     \<and> filter (\<lambda>w. fst w = ''ignoreDebugGCFlagsWarning'')
          (warnings (resolveDebugConfiguration ?h (Some ?c)))
        = [(''ignoreDebugGCFlagsWarning'', buildFlagsMessage)]"
    by (simp add: h p u g deletep_def getFromGlobalState_def hasOwnProperty_def)
  from gcflags_stripped [OF sk(2)] s
  have 2: "(\<exists>c'. resolved (resolveDebugConfiguration ?h (Some ?d)) = Some c'
              \<and> getp c' ''buildFlags'' = JStr ''-race'')
     \<and> filter (\<lambda>w. fst w = ''ignoreDebugGCFlagsWarning'')
          (warnings (resolveDebugConfiguration ?h (Some ?d))) = []"
    by (simp add: h p g getFromGlobalState_def hasOwnProperty_def)
  from sk(1) s 1 2 show ?thesis by blast
qed

text \<open>
  C5 as stated fails.  With the option parser written out above: \<open>buildFlags\<close> has no
  \<open>gcflags\<close> and \<open>GOFLAGS\<close> has one, and a warning with the key
  \<open>ignoreDebugGCFlagsWarning\<close> is shown; and the flags \<open>--gcflags=all=-N -l --other=1\<close>,
  with \<open>gcflags\<close> in \<open>GOFLAGS\<close> too, resolve to \<open>-l --other 1\<close> with two warnings
  under that key.
\<close>

theorem gcflags_stripped_counterexample:
  "resolveDebugConfiguration (plainHost None ''/go/bin/dlv'' (Some []))
     (Some [(''request'', JStr ''launch''), (''buildFlags'', JStr ''--other=1''),
            (''env'', JObj [(''GOFLAGS'', JStr ''--gcflags=all=-N'')])])
   = \<lparr>resolved = Some [(''request'', JStr ''launch''), (''buildFlags'', JStr ''--other=1''),
        (''env'', JObj [(''GOFLAGS'', JStr [])]), (''type'', JStr ''go''),
        (''packagePathToGoModPathMap'', JObj []), (''dlvToolPath'', JStr ''/go/bin/dlv'')],
      warnings = [(''ignoreDebugGCFlagsWarning'', goflagsMessage)], prompted = []\<rparr>
   \<and> resolveDebugConfiguration (plainHost None ''/go/bin/dlv'' (Some []))
     (Some [(''request'', JStr ''launch''),
            (''buildFlags'', JStr ''--gcflags=all=-N -l --other=1''),
            (''env'', JObj [(''GOFLAGS'', JStr ''--gcflags=all=-N'')])])
   = \<lparr>resolved = Some [(''request'', JStr ''launch''), (''buildFlags'', JStr ''-l --other 1''),
        (''env'', JObj [(''GOFLAGS'', JStr [])]), (''type'', JStr ''go''),
        (''packagePathToGoModPathMap'', JObj []), (''dlvToolPath'', JStr ''/go/bin/dlv'')],
      warnings = [(''ignoreDebugGCFlagsWarning'', buildFlagsMessage),
                  (''ignoreDebugGCFlagsWarning'', goflagsMessage)], prompted = []\<rparr>"
  by (simp add: run_defs digits.simps [of "Suc 0"])

text \<open>
  C6, as amended.  The warning for \<open>gcflags\<close> removed from \<open>buildFlags\<close> and the warning
  for \<open>gcflags\<close> removed from \<open>GOFLAGS\<close> carry one and the same key,
  \<open>ignoreDebugGCFlagsWarning\<close>; the two are told apart by their messages only.
\<close>

theorem gcflags_warning_key:
  assumes "(k, m) \<in> set (warnings (resolveDebugConfiguration h dc))"
    and "m = buildFlagsMessage \<or> m = goflagsMessage"
  shows "k = ''ignoreDebugGCFlagsWarning'' \<and> buildFlagsMessage \<noteq> goflagsMessage"
proof -
  have ne: "buildFlagsMessage \<noteq> goflagsMessage"
    by (simp add: buildFlagsMessage_def goflagsMessage_def)
  have r: "launchRemoteMessage \<noteq> buildFlagsMessage" "launchRemoteMessage \<noteq> goflagsMessage"
    "remotePathAndProgramMessage \<noteq> buildFlagsMessage"
    "remotePathAndProgramMessage \<noteq> goflagsMessage"
    by (simp_all add: buildFlagsMessage_def goflagsMessage_def launchRemoteMessage_def
        remotePathAndProgramMessage_def)
  from assms(1) obtain c0 where sk: "skeletonDefaulting h dc = Some c0"
    by (cases "skeletonDefaulting h dc") (auto simp: resolveDebugConfiguration_def)
  define A where "A = (if truthy (getp c0 ''buildFlags'')
         \<and> snd (removeFlag h (getp c0 ''buildFlags'') ''gcflags'')
       then showWarning (globalState h) ''ignoreDebugGCFlagsWarning'' buildFlagsMessage else [])"
  define B where "B = (if truthy (goflagsOf c0) \<and> snd (removeFlag h (goflagsOf c0) ''gcflags'')
       then showWarning (globalState h) ''ignoreDebugGCFlagsWarning'' goflagsMessage else [])"
  from warnings_resolve [OF sk] obtain ws where
    w: "warnings (resolveDebugConfiguration h dc) = A @ B @ ws"
    and ws: "set ws \<subseteq> {(''ignoreDebugLaunchRemoteWarning'', launchRemoteMessage),
                 (''ignoreUsingRemotePathAndProgramWarning'', remotePathAndProgramMessage)}"
    unfolding A_def B_def by blast
  have a: "fst x = ''ignoreDebugGCFlagsWarning''" if "x \<in> set A" for x
    using that by (simp add: A_def showWarning_def split: if_splits)
  have b: "fst x = ''ignoreDebugGCFlagsWarning''" if "x \<in> set B" for x
    using that by (simp add: B_def showWarning_def split: if_splits)
  from assms(1) w consider "(k, m) \<in> set A" | "(k, m) \<in> set B" | "(k, m) \<in> set ws"
    by auto
  then have "k = ''ignoreDebugGCFlagsWarning''"
  proof cases
    case 1
    from a [OF 1] show ?thesis by simp
  next
    case 2
    from b [OF 2] show ?thesis by simp
  next
    case 3
    with ws have "m = launchRemoteMessage \<or> m = remotePathAndProgramMessage" by blast
    with assms(2) r show ?thesis by metis
  qed
  with ne show ?thesis by simp
qed

theorem gcflags_warning_key_witness:
  "(''ignoreDebugGCFlagsWarning'', goflagsMessage) \<in> set (warnings (resolveDebugConfiguration
       (plainHost None ''/go/bin/dlv'' (Some []))
       (Some [(''request'', JStr ''launch''),
              (''buildFlags'', JStr ''-gcflags=-N -race''),
              (''env'', JObj [(''GOFLAGS'', JStr ''-gcflags=-N -race'')])])))
   \<and> (''ignoreDebugGCFlagsWarning'', buildFlagsMessage) \<in> set (warnings (resolveDebugConfiguration
       (plainHost None ''/go/bin/dlv'' (Some []))
       (Some [(''request'', JStr ''launch''),
              (''buildFlags'', JStr ''-gcflags=-N -race''),
              (''env'', JObj [(''GOFLAGS'', JStr ''-gcflags=-N -race'')])])))
   \<and> buildFlagsMessage \<noteq> goflagsMessage"
proof -
  let ?r = "resolveDebugConfiguration
       (plainHost None ''/go/bin/dlv'' (Some []))
       (Some [(''request'', JStr ''launch''),
              (''buildFlags'', JStr ''-gcflags=-N -race''),
              (''env'', JObj [(''GOFLAGS'', JStr ''-gcflags=-N -race'')])])"
  have w: "warnings ?r = [(''ignoreDebugGCFlagsWarning'', buildFlagsMessage),
                          (''ignoreDebugGCFlagsWarning'', goflagsMessage)]"
    by (simp add: run_defs)
  then have a: "(''ignoreDebugGCFlagsWarning'', goflagsMessage) \<in> set (warnings ?r)"
    and b: "(''ignoreDebugGCFlagsWarning'', buildFlagsMessage) \<in> set (warnings ?r)"
    by simp_all
  from gcflags_warning_key [OF a] have "buildFlagsMessage \<noteq> goflagsMessage" by simp
  with a b show ?thesis by blast
qed

text \<open>
  C6 as stated fails: a run that strips \<open>gcflags\<close> from \<open>buildFlags\<close> only and a run that
  strips it from \<open>GOFLAGS\<close> only show their warnings under the same key.
\<close>

theorem gcflags_warning_key_counterexample:
  "warnings (resolveDebugConfiguration (plainHost None ''/go/bin/dlv'' (Some []))
     (Some [(''request'', JStr ''launch''), (''buildFlags'', JStr ''-gcflags=-N -race'')]))
     = [(''ignoreDebugGCFlagsWarning'', buildFlagsMessage)]
   \<and> warnings (resolveDebugConfiguration (plainHost None ''/go/bin/dlv'' (Some []))
     (Some [(''request'', JStr ''launch''),
            (''env'', JObj [(''GOFLAGS'', JStr ''-gcflags=-N -race'')])]))
     = [(''ignoreDebugGCFlagsWarning'', goflagsMessage)]"
  by (simp add: run_defs)

section \<open>Errors of the helpers\<close>


lemma fieldDefaults_withHelpers [simp]:
  "fieldDefaults (withHelpers p rp h) c = fieldDefaults h c"
  by (simp add: fieldDefaults_def withHelpers_def)




lemma withHelpers_fields [simp]:
  "dlvToolPath (withHelpers p rp h) = dlvToolPath h"
  "activeTextEditor (withHelpers p rp h) = activeTextEditor h"
  "globalState (withHelpers p rp h) = globalState h"
  "defaultDebugAdapterType (withHelpers p rp h) = defaultDebugAdapterType h"
  by (simp_all add: withHelpers_def)

lemma skeleton_withHelpers [simp]: "skeleton (withHelpers p rp h) e = skeleton h e"
  by (simp add: skeleton_def)

lemma skeletonDefaulting_withHelpers [simp]:
  "skeletonDefaulting (withHelpers p rp h) dc = skeletonDefaulting h dc"
  by (simp add: skeletonDefaulting_def split: option.splits)

lemma concretizeMode_withHelpers [simp]:
  "concretizeMode (withHelpers p rp h) c = concretizeMode h c"
  by (simp add: concretizeMode_def)

lemma remoteWarnings_withHelpers [simp]:
  "remoteWarnings (withHelpers p rp h) c = remoteWarnings h c"
  by (simp add: remoteWarnings_def)








lemma plainHost_fields [simp]:
  "activeTextEditor (plainHost ed dlv gs) = ed" "dlvToolPath (plainHost ed dlv gs) = dlv"
  "globalState (plainHost ed dlv gs) = gs" "delveConfig (plainHost ed dlv gs) = []"
  "defaultDebugAdapterType (plainHost ed dlv gs) = ''go''"
  "packagePathToGoModPathMap (plainHost ed dlv gs) = JObj []"
  by (simp_all add: plainHost_def)



section \<open>Mutual exclusion and order of the mutex\<close>

lemma expected_Suc: "expected (Suc n) = expected n @ [Begin (Suc n), End (Suc n)]"
  by (simp add: expected_def)

lemma expected_0 [simp]: "expected 0 = []"
  by (simp add: expected_def)

lemma expected_prefix: "m \<le> n \<Longrightarrow> prefix (expected m) (expected n)"
proof (induction n)
  case 0
  then show ?case by simp
next
  case (Suc n)
  show ?case
  proof (cases "m = Suc n")
    case True
    then show ?thesis by simp
  next
    case False
    with Suc.prems have "m \<le> n" by simp
    from Suc.IH [OF this] show ?thesis
      by (simp add: expected_Suc)
  qed
qed


lemma expected_step [simp]:
  "Suc 0 \<le> c \<Longrightarrow> expected (c - Suc 0) @ [Begin c, End c] = expected c"
  by (cases c) (simp_all add: expected_Suc)

lemma shape_lock:
  assumes "shape c st s"
  shows "shape c (if st = Idle then Scheduled else st) (awaitLock (lock sub s))"
proof -
  from assms have Mn: "promises s (Tail (tickets s)) = (if st = Idle then Fulfilled else Pending [])"
    by (auto simp: shape_def)
  from assms have Rn: "promises s (Grant (Suc (tickets s))) = Pending []"
    by (cases st) (auto simp: shape_def)
  from assms have mx: "mutex s = Tail (tickets s)" by (simp add: shape_def)
  show ?thesis
  proof (cases "st = Idle")
    case True
    with assms have c: "c = Suc (tickets s)" by (simp add: shape_def)
    from assms True show ?thesis
      unfolding shape_def lock_def awaitLock_def promise_then_def Let_def
      apply (elim conjE)
      apply (intro conjI allI)
      apply (auto simp: Mn Rn mx c)
      done
  next
    case False
    with assms have c: "c \<le> tickets s" by (simp add: shape_def)
    from assms False show ?thesis
      unfolding shape_def lock_def awaitLock_def promise_then_def Let_def
      apply (elim conjE)
      apply (intro conjI allI)
      apply (auto simp: Mn Rn mx c)
      done
  qed
qed

lemma shape_tick_Idle: "shape c Idle s \<Longrightarrow> shape c Idle (step Tick s)"
proof -
  assume a: "shape c Idle s"
  then have "jobs s = []" by (simp add: shape_def)
  then have "step Tick s = s" by simp
  with a show ?thesis by simp
qed

lemma shape_tick_HeldT: "shape c (Held True) s \<Longrightarrow> shape c (Held True) (step Tick s)"
proof -
  assume a: "shape c (Held True) s"
  then have "jobs s = []" by (simp add: shape_def)
  then have "step Tick s = s" by simp
  with a show ?thesis by simp
qed

lemma shape_tick_Scheduled:
  assumes "shape c Scheduled s"
  shows "shape c Granted (step Tick s)"
proof -
  from assms have j: "jobs s = [ThenCallback c]" and c: "1 \<le> c" "c \<le> tickets s"
    by (auto simp: shape_def)
  from assms c have b: "begin_var s c = Some (Grant c)" by (simp add: shape_def)
  from assms c have r: "promises s (Grant c) = Pending [Acquired c]" by (simp add: shape_def)
  from assms show ?thesis
    unfolding shape_def
    apply (elim conjE)
    apply (intro conjI allI)
    apply (auto simp: j b r fulfil_def Let_def c)
    done
qed

lemma shape_tick_HeldF:
  assumes "shape c (Held False) s"
  shows "shape c (Held True) (step Tick s)"
proof -
  from assms have j: "jobs s = [Adopt c]" and c: "1 \<le> c" "c \<le> tickets s"
    by (auto simp: shape_def)
  from assms c have u: "promises s (Hold c) = Pending []" by (simp add: shape_def)
  from assms show ?thesis
    unfolding shape_def
    apply (elim conjE)
    apply (intro conjI allI)
    apply (auto simp: j u promise_then_def c)
    done
qed

lemma shape_tick_FinishingF:
  assumes "shape c (Finishing False oc) s"
  shows "shape c (Finishing True oc) (step Tick s)"
proof -
  from assms have j: "jobs s = [Adopt c, Completed c oc]" and c: "1 \<le> c" "c \<le> tickets s"
    by (auto simp: shape_def)
  from assms c have u: "promises s (Hold c) = Pending []" by (simp add: shape_def)
  from assms show ?thesis
    unfolding shape_def
    apply (elim conjE)
    apply (intro conjI allI)
    apply (auto simp: j u promise_then_def c)
    done
qed

lemma shape_tick_FinishingT:
  assumes "shape c (Finishing True oc) s"
  shows "shape c (Releasing True) (step Tick s)"
proof -
  from assms have j: "jobs s = [Completed c oc]" and c: "1 \<le> c" "c \<le> tickets s"
    by (auto simp: shape_def)
  from assms c have u: "promises s (Hold c) = Pending [Settle c]" by (simp add: shape_def)
  from assms have f: "finished s c = Some oc" by (simp add: shape_def)
  from assms show ?thesis
    unfolding shape_def
    apply (elim conjE)
    apply (intro conjI allI)
    apply (auto simp: j u f fulfil_def unlock_def Let_def c)
    done
qed

lemma shape_tick_ReleasingF:
  assumes "shape c (Releasing False) s"
  shows "shape c (Releasing True) (step Tick s)"
proof -
  from assms have j: "jobs s = [Adopt c]" and c: "1 \<le> c" "c \<le> tickets s"
    by (auto simp: shape_def)
  from assms c have u: "promises s (Hold c) = Fulfilled" by (simp add: shape_def)
  from assms show ?thesis
    unfolding shape_def
    apply (elim conjE)
    apply (intro conjI allI)
    apply (auto simp: j u promise_then_def c)
    done
qed

lemma shape_tick_ReleasingT:
  assumes "shape c (Releasing True) s"
  shows "shape (Suc c) (if c < tickets s then Scheduled else Idle) (step Tick s)"
proof -
  from assms have j: "jobs s = [Settle c]" and c: "1 \<le> c" "c \<le> tickets s"
    by (auto simp: shape_def)
  from assms c have m: "promises s (Tail c) =
      Pending (if c < tickets s then [ThenCallback (Suc c)] else [])" by (simp add: shape_def)
  from assms c have t: "trace s = expected c" by (simp add: shape_def)
  show ?thesis
  proof (cases "c < tickets s")
    case True
    with assms show ?thesis
      unfolding shape_def
      apply (elim conjE)
      apply (intro conjI allI)
      apply (auto simp: j m t fulfil_def less_Suc_eq c)
      done
  next
    case False
    with c have "c = tickets s" by simp
    with assms show ?thesis
      unfolding shape_def
      apply (elim conjE)
      apply (intro conjI allI)
      apply (auto simp: j m t fulfil_def less_Suc_eq c)
      done
  qed
qed

lemma shape_tick_Granted:
  assumes "shape c Granted s"
  shows "shape c (begun_stage (submitted s c)) (step Tick s)"
proof -
  from assms have j: "jobs s = [Acquired c, Adopt c]" and c: "1 \<le> c" "c \<le> tickets s"
    by (auto simp: shape_def)
  from assms c have u: "promises s (Hold c) = Pending []" by (simp add: shape_def)
  show ?thesis
  proof (cases "submitted s c")
    case ViaLock
    with assms show ?thesis
      unfolding shape_def
      apply (elim conjE)
      apply (intro conjI allI)
      apply (auto simp: j u c)
      done
  next
    case (ViaDispatch fn)
    show ?thesis
    proof (cases fn)
      case (Returns v)
      with ViaDispatch assms show ?thesis
        unfolding shape_def
        apply (elim conjE)
        apply (intro conjI allI)
        apply (auto simp: j u c)
        done
    next
      case (Throws e)
      with ViaDispatch assms show ?thesis
        unfolding shape_def
        apply (elim conjE)
        apply (intro conjI allI)
        apply (auto simp: j u c unlock_def fulfil_def Let_def)
        done
    next
      case Async
      with ViaDispatch assms show ?thesis
        unfolding shape_def
        apply (elim conjE)
        apply (intro conjI allI)
        apply (auto simp: j u c)
        done
    qed
  qed
qed

lemma shape_tick:
  assumes "shape c st s"
  shows "shape (fst (tick_stage (tickets s) (submitted s c) c st))
            (snd (tick_stage (tickets s) (submitted s c) c st)) (step Tick s)"
proof (cases st)
  case Idle
  with assms show ?thesis by (simp add: shape_tick_Idle del: step.simps)
next
  case Scheduled
  with assms show ?thesis by (simp add: shape_tick_Scheduled del: step.simps)
next
  case Granted
  with assms show ?thesis by (simp add: shape_tick_Granted del: step.simps)
next
  case (Held a)
  with assms show ?thesis by (cases a) (simp_all add: shape_tick_HeldT shape_tick_HeldF del: step.simps)
next
  case (Finishing a oc)
  with assms show ?thesis by (cases a) (simp_all add: shape_tick_FinishingT shape_tick_FinishingF del: step.simps)
next
  case (Releasing a)
  with assms show ?thesis
    using shape_tick_ReleasingT [of c s] by (cases a) (simp_all add: shape_tick_ReleasingF del: step.simps)
qed

lemma shape_finish:
  assumes "shape c st s"
  shows "shape c (if k = c \<and> submitted s c = ViaDispatch Async
               then (case st of Held a \<Rightarrow> Finishing a oc | _ \<Rightarrow> st) else st)
            (step (Finish k oc) s)"
proof (cases "holder s k = InBody \<and> submitted s k = ViaDispatch Async")
  case False
  then have "step (Finish k oc) s = s" by auto
  moreover have "(if k = c \<and> submitted s c = ViaDispatch Async
               then (case st of Held a \<Rightarrow> Finishing a oc | _ \<Rightarrow> st) else st) = st"
    using False assms by (cases st) (auto simp: shape_def)
  ultimately show ?thesis using assms by simp
next
  case True
  with assms have k: "k = c" by (auto simp: shape_def split: if_splits)
  with True assms obtain a where st: "st = Held a"
    by (cases st) (auto simp: shape_def)
  from assms st have c: "1 \<le> c" "c \<le> tickets s" by (auto simp: shape_def)
  from True k st assms show ?thesis
    unfolding shape_def
    apply (elim conjE)
    apply (intro conjI allI)
    apply (auto simp: c)
    done
qed

lemma shape_unlock:
  assumes "shape c st s"
  shows "shape c (if k = c \<and> submitted s c = ViaLock
               then (case st of Held a \<Rightarrow> Releasing a | _ \<Rightarrow> st) else st)
            (step (Unlock k) s)"
proof (cases "submitted s k = ViaLock \<and> holder s k \<noteq> NotYet")
  case False
  then have "step (Unlock k) s = s" by auto
  moreover have "(if k = c \<and> submitted s c = ViaLock
               then (case st of Held a \<Rightarrow> Releasing a | _ \<Rightarrow> st) else st) = st"
    using False assms by (cases st) (auto simp: shape_def)
  ultimately show ?thesis using assms by simp
next
  case True
  show ?thesis
  proof (cases "holder s k = InBody")
    case ib: True
    with assms have k: "k = c" by (auto simp: shape_def split: if_splits)
    with ib assms obtain a where st: "st = Held a"
      by (cases st) (auto simp: shape_def)
    from assms st have c: "1 \<le> c" "c \<le> tickets s" by (auto simp: shape_def)
    from assms c st have u: "promises s (Hold c) = Pending (if a then [Settle c] else [])"
      by (simp add: shape_def)
    from True ib k st assms show ?thesis
      unfolding shape_def
      apply (elim conjE)
      apply (intro conjI allI)
      apply (auto simp: c u unlock_def fulfil_def)
      done
  next
    case nb: False
    with True have d: "holder s k = Done" by (cases "holder s k") simp_all
    with assms have kc: "1 \<le> k" "k < c \<or> k = c \<and> stage_holder st = Done"
      by (auto simp: shape_def split: if_splits)
    from True assms d have "finished s k = None" by (simp add: shape_def)
    with kc True assms have rel: "k < c \<or> k = c \<and> released st"
      by (cases st) (auto simp: shape_def)
    with kc assms have u: "promises s (Hold k) = Fulfilled" by (simp add: shape_def)
    then have "step (Unlock k) s = s\<lparr>trace := trace s, holder := (holder s)(k := Done)\<rparr>"
      using True d by (simp add: unlock_def fulfil_def)
    also have "\<dots> = s" using d by (simp add: fun_upd_idem)
    finally have "step (Unlock k) s = s" .
    moreover have "(if k = c \<and> submitted s c = ViaLock
               then (case st of Held a \<Rightarrow> Releasing a | _ \<Rightarrow> st) else st) = st"
      using kc by (cases st) auto
    ultimately show ?thesis using assms by simp
  qed
qed

lemma shape_step: "shape c st s \<Longrightarrow> \<exists>c' st'. shape c' st' (step a s)"
proof (cases a)
  case (Dispatch fn)
  assume "shape c st s"
  from shape_lock [OF this, of "ViaDispatch fn"] Dispatch show ?thesis
    by (auto simp: dispatch_def)
next
  case Lock
  assume "shape c st s"
  from shape_lock [OF this, of ViaLock] Lock show ?thesis by auto
next
  case Tick
  assume "shape c st s"
  from shape_tick [OF this] Tick show ?thesis by blast
next
  case (Finish k oc)
  assume "shape c st s"
  from shape_finish [OF this, of k oc] Finish show ?thesis by blast
next
  case (Unlock k)
  assume "shape c st s"
  from shape_unlock [OF this, of k] Unlock show ?thesis by blast
qed

lemma run_snoc: "run (acts @ [a]) = step a (run acts)"
  by (simp add: run_def)

lemma shape_run: "\<exists>c st. shape c st (run acts)"
proof (induction acts rule: rev_induct)
  case Nil
  have "shape 1 Idle init" by (simp add: shape_def init_def)
  then show ?case by (auto simp: run_def)
next
  case (snoc a acts)
  then show ?case by (auto simp: run_snoc dest: shape_step)
qed

lemma tickets_tick: "shape c st s \<Longrightarrow> tickets (step Tick s) = tickets s"
  by (cases st) (auto simp: shape_def fulfil_def promise_then_def unlock_def Let_def
      split: submission.splits body.splits option.splits pstate.splits)

lemma rank_tick:
  assumes "c \<le> n" and "st \<noteq> Held True" and "st \<noteq> Idle"
  shows "rank n (fst (tick_stage n sub c st)) (snd (tick_stage n sub c st)) < rank n c st"
proof (cases st)
  case Granted
  then show ?thesis
    by (cases sub rule: begun_stage.cases) (simp_all add: rank_def)
qed (use assms in \<open>auto simp: rank_def\<close>)

lemma drain_wf:
  assumes "shape c st s"
  shows "\<exists>m c' st'. shape c' st' ((step Tick ^^ m) s) \<and> (st' = Idle \<or> st' = Held True)"
  using assms
proof (induction "rank (tickets s) c st" arbitrary: s c st rule: less_induct)
  case less
  show ?case
  proof (cases "st = Idle \<or> st = Held True")
    case True
    with less.prems have "shape c st ((step Tick ^^ 0) s) \<and> (st = Idle \<or> st = Held True)"
      by simp
    then show ?thesis by blast
  next
    case False
    let ?c = "fst (tick_stage (tickets s) (submitted s c) c st)"
    let ?st = "snd (tick_stage (tickets s) (submitted s c) c st)"
    from less.prems False have c: "c \<le> tickets s" by (auto simp: shape_def)
    from shape_tick [OF less.prems] have w: "shape ?c ?st (step Tick s)" .
    from rank_tick [of c "tickets s" st "submitted s c"] c False
    have "rank (tickets (step Tick s)) ?c ?st < rank (tickets s) c st"
      by (simp add: tickets_tick [OF less.prems] del: step.simps)
    from less.hyps [OF this w] obtain m c' st' where
      "shape c' st' ((step Tick ^^ m) (step Tick s))" "st' = Idle \<or> st' = Held True"
      by blast
    then have "shape c' st' ((step Tick ^^ Suc m) s) \<and> (st' = Idle \<or> st' = Held True)"
      by (simp add: funpow_swap1 del: step.simps)
    then show ?thesis by blast
  qed
qed

lemma run_ticks: "run (acts @ replicate m Tick) = (step Tick ^^ m) (run acts)"
  by (induction m) (simp_all add: run_def replicate_append_same [symmetric] del: step.simps replicate_append_same)

lemma Begin_expected [simp]: "Begin k \<in> set (expected n) \<longleftrightarrow> 1 \<le> k \<and> k \<le> n"
  by (induction n) (auto simp: expected_Suc)

lemma End_expected [simp]: "End k \<in> set (expected n) \<longleftrightarrow> 1 \<le> k \<and> k \<le> n"
  by (induction n) (auto simp: expected_Suc)

lemma expected_adjacent:
  "1 \<le> k \<Longrightarrow> Suc k \<le> n \<Longrightarrow> \<exists>pre post. expected n = pre @ [End k, Begin (Suc k)] @ post"
proof (induction n)
  case 0
  then show ?case by simp
next
  case (Suc n)
  show ?case
  proof (cases "k = n")
    case True
    with Suc.prems have "expected n = expected (n - Suc 0) @ [Begin n, End n]" by simp
    then have "expected (Suc n)
        = (expected (n - Suc 0) @ [Begin n]) @ [End k, Begin (Suc k)] @ [End (Suc n)]"
      using True by (simp add: expected_Suc)
    then show ?thesis by blast
  next
    case False
    with Suc.prems have "Suc k \<le> n" by simp
    from Suc.IH [OF Suc.prems(1) this] obtain pre post where
      "expected n = pre @ [End k, Begin (Suc k)] @ post" by blast
    then have "expected (Suc n)
        = pre @ [End k, Begin (Suc k)] @ (post @ [Begin (Suc n), End (Suc n)])"
      by (simp add: expected_Suc)
    then show ?thesis by blast
  qed
qed

lemma fulfil_fields [simp]:
  "finished (fulfil p s) = finished s" "tickets (fulfil p s) = tickets s"
  "submitted (fulfil p s) = submitted s" "holder (fulfil p s) = holder s"
  "trace (fulfil p s) = trace s" "result (fulfil p s) = result s"
  by (simp_all add: fulfil_def split: pstate.splits)

lemma promise_then_fields [simp]:
  "finished (promise_then p j s) = finished s" "tickets (promise_then p j s) = tickets s"
  "submitted (promise_then p j s) = submitted s" "holder (promise_then p j s) = holder s"
  "trace (promise_then p j s) = trace s" "result (promise_then p j s) = result s"
  by (simp_all add: promise_then_def split: pstate.splits)

lemma shapeD_finished:
  "shape c st s \<Longrightarrow> (finished s j = None) = (submitted s j = ViaLock \<or> holder s j \<noteq> Done)"
  by (simp add: shape_def)

lemma shapeD_holder:
  "shape c st s \<Longrightarrow> holder s j =
     (if 1 \<le> j \<and> j < c then Done else if j = c then stage_holder st else NotYet)"
  by (simp add: shape_def)

lemma shapeD_jobs: "shape c st s \<Longrightarrow> jobs s = stage_jobs c st"
  by (simp add: shape_def)

lemma shapeD_result:
  "shape c st s \<Longrightarrow> result s j =
     (if 1 \<le> j \<and> (j < c \<or> j = c \<and> released st) \<and> submitted s j \<noteq> ViaLock
      then finished s j else None)"
  by (simp add: shape_def)

lemma shapeD_trace: "shape c st s \<Longrightarrow> trace s = expected (c - 1) @ stage_trace c st"
  by (simp add: shape_def)

lemma shapeD_bounds: "shape c st s \<Longrightarrow> 1 \<le> c \<and> c \<le> Suc (tickets s) \<and> (st = Idle \<longleftrightarrow> c = Suc (tickets s))"
  by (simp add: shape_def)

lemma finished_tick:
  assumes "shape c st s" and "finished s k = Some oc"
  shows "finished (step Tick s) k = Some oc"
proof -
  from shapeD_finished [OF assms(1), of k] assms(2) have d: "holder s k = Done" by auto
  note j = shapeD_jobs [OF assms(1)]
  show ?thesis
  proof (cases st)
    case Granted
    with shapeD_holder [OF assms(1), of k] d have "k \<noteq> c" by (auto split: if_splits)
    with assms(2) Granted j show ?thesis
      by (auto simp: unlock_def Let_def split: submission.splits body.splits)
  next
    case (Held a)
    with j assms(2) show ?thesis by (cases a) simp_all
  next
    case (Finishing a oc')
    with j assms(2) show ?thesis by (cases a) (simp_all add: unlock_def Let_def)
  next
    case (Releasing a)
    with j assms(2) show ?thesis by (cases a) simp_all
  qed (use j assms(2) in \<open>auto simp: Let_def split: option.splits\<close>)
qed

lemma shape_ticks: "shape c st s \<Longrightarrow> \<exists>c' st'. shape c' st' ((step Tick ^^ m) s)"
proof (induction m)
  case 0
  then show ?case by auto
next
  case (Suc m)
  then obtain c' st' where "shape c' st' ((step Tick ^^ m) s)" by blast
  from shape_step [OF this, of Tick] show ?case by (simp del: step.simps)
qed

lemma finished_ticks:
  assumes "shape c st s" and "finished s k = Some oc"
  shows "finished ((step Tick ^^ m) s) k = Some oc"
proof (induction m)
  case 0
  with assms show ?case by simp
next
  case (Suc m)
  from shape_ticks [OF assms(1), of m]
  obtain c' st' where "shape c' st' ((step Tick ^^ m) s)" by blast
  from finished_tick [OF this Suc.IH] show ?case by (simp del: step.simps)
qed

lemma tickets_ticks:
  assumes "shape c st s"
  shows "tickets ((step Tick ^^ m) s) = tickets s"
proof (induction m)
  case 0
  show ?case by simp
next
  case (Suc m)
  from shape_ticks [OF assms(1), of m]
  obtain c' st' where "shape c' st' ((step Tick ^^ m) s)" by blast
  from tickets_tick [OF this] Suc.IH show ?case by (simp del: step.simps)
qed

text \<open>
  C1.  In every run, whatever the order of submissions, microtasks, completions and
  unlocks, the trace of sections begun and ended is a prefix of
  \<open>Begin 1, End 1, Begin 2, End 2, ...\<close> in the order of submission: the bodies begin in
  that order and no section begins before the one before it has ended, so at most one
  ticket is inside its section.  And once the microtasks have run, either every
  submitted ticket is through or the first that is not is in its section.
\<close>

theorem mutex_fifo:
  "prefix (trace (run acts)) (expected (tickets (run acts)))
   \<and> (\<exists>c. {k. Begin k \<in> set (trace (run acts)) \<and> End k \<notin> set (trace (run acts))} \<subseteq> {c})
   \<and> (\<exists>m. trace (run (acts @ replicate m Tick)) = expected (tickets (run acts))
          \<or> (\<exists>c. trace (run (acts @ replicate m Tick)) = expected c @ [Begin (Suc c)]))"
proof (intro conjI)
  from shape_run [of acts] obtain c st where w: "shape c st (run acts)" by blast
  let ?s = "run acts"
  from w have t: "trace ?s = expected (c - 1) @ stage_trace c st"
    and c: "1 \<le> c" "c \<le> Suc (tickets ?s)" and i: "st = Idle \<longleftrightarrow> c = Suc (tickets ?s)"
    by (auto simp: shape_def)
  show "prefix (trace ?s) (expected (tickets ?s))"
  proof (cases "st = Idle")
    case True
    with t i show ?thesis by simp
  next
    case False
    with c i have le: "c \<le> tickets ?s" by simp
    have "prefix (stage_trace c st) [Begin c, End c]"
      by (cases st) simp_all
    then have "prefix (trace ?s) (expected (c - 1) @ [Begin c, End c])"
      by (simp add: t)
    also have "expected (c - 1) @ [Begin c, End c] = expected c" using c by simp
    finally show ?thesis using expected_prefix [OF le] by (rule prefix_order.trans)
  qed
  have "{k. Begin k \<in> set (trace ?s) \<and> End k \<notin> set (trace ?s)} \<subseteq> {c}"
    using c by (cases st) (auto simp: t)
  then show "\<exists>c. {k. Begin k \<in> set (trace ?s) \<and> End k \<notin> set (trace ?s)} \<subseteq> {c}" ..
  from drain_wf [OF w] obtain m c' st' where
    w': "shape c' st' ((step Tick ^^ m) ?s)" and q: "st' = Idle \<or> st' = Held True" by blast
  let ?t = "run (acts @ replicate m Tick)"
  from w' have w'': "shape c' st' ?t" by (simp add: run_ticks)
  have n: "tickets ?t = tickets ?s" by (simp add: run_ticks tickets_ticks [OF w])
  from q have "trace ?t = expected (tickets ?s) \<or> (\<exists>c. trace ?t = expected c @ [Begin (Suc c)])"
  proof
    assume "st' = Idle"
    with w'' n show ?thesis by (simp add: shape_def)
  next
    assume "st' = Held True"
    with w'' have "trace ?t = expected (c' - 1) @ [Begin c']" "1 \<le> c'" by (simp_all add: shape_def)
    then have "trace ?t = expected (c' - 1) @ [Begin (Suc (c' - 1))]" by simp
    then show ?thesis by blast
  qed
  then show "\<exists>m. trace (run (acts @ replicate m Tick)) = expected (tickets ?s)
          \<or> (\<exists>c. trace (run (acts @ replicate m Tick)) = expected c @ [Begin (Suc c)])" ..
qed

text \<open>
  C2.  When the body of ticket \<open>k\<close> given to \<open>dispatch\<close> has failed with \<open>e\<close>, by
  throwing or by rejecting, and a ticket \<open>k + 1\<close> has been submitted, then the microtasks
  alone lead to a state where the section of \<open>k + 1\<close> has begun, right after the end of
  the section of \<open>k\<close>, the promise of \<open>dispatch\<close> for \<open>k\<close> is rejected with \<open>e\<close>, and
  the promise of every \<open>dispatch\<close> is pending or settled with the outcome of its own body.
\<close>

theorem mutex_fault_isolation:
  assumes "finished (run acts) k = Some (Threw e)" and "k < tickets (run acts)"
  shows "\<exists>m. (\<exists>pre post. trace (run (acts @ replicate m Tick))
                  = pre @ [End k, Begin (Suc k)] @ post)
           \<and> result (run (acts @ replicate m Tick)) k = Some (Threw e)
           \<and> (\<forall>j. result (run (acts @ replicate m Tick)) j = None
                 \<or> result (run (acts @ replicate m Tick)) j
                     = finished (run (acts @ replicate m Tick)) j)"
proof -
  let ?s = "run acts"
  from shape_run [of acts] obtain c st where w: "shape c st ?s" by blast
  from drain_wf [OF w] obtain m c' st' where
    w': "shape c' st' ((step Tick ^^ m) ?s)" and q: "st' = Idle \<or> st' = Held True" by blast
  let ?t = "run (acts @ replicate m Tick)"
  from w' have wt: "shape c' st' ?t" by (simp add: run_ticks)
  have n: "tickets ?t = tickets ?s" by (simp add: run_ticks tickets_ticks [OF w])
  have f: "finished ?t k = Some (Threw e)"
    by (simp add: run_ticks finished_ticks [OF w assms(1)])
  with shapeD_finished [OF wt, of k] have d: "holder ?t k = Done" "submitted ?t k \<noteq> ViaLock"
    by auto
  from q have nd: "stage_holder st' \<noteq> Done" "\<not> released st'" by auto
  from shapeD_holder [OF wt, of k] d(1) nd have k: "1 \<le> k" "k < c'"
    by (auto split: if_splits)
  from shapeD_result [OF wt, of k] k d f have r: "result ?t k = Some (Threw e)" by simp
  have a: "\<forall>j. result ?t j = None \<or> result ?t j = finished ?t j"
    using shapeD_result [OF wt] by simp
  note b = shapeD_bounds [OF wt]
  have "\<exists>pre post. trace ?t = pre @ [End k, Begin (Suc k)] @ post"
  proof (cases "Suc k = c'")
    case True
    with assms(2) n b have "st' \<noteq> Idle" by auto
    with q have "st' = Held True" by simp
    with shapeD_trace [OF wt] True have "trace ?t = expected k @ [Begin (Suc k)]" by auto
    also from k have "expected k = expected (k - Suc 0) @ [Begin k, End k]" by simp
    finally have "trace ?t = (expected (k - Suc 0) @ [Begin k]) @ [End k, Begin (Suc k)] @ []"
      by simp
    then show ?thesis by blast
  next
    case False
    with k have le: "Suc k \<le> c' - 1" by simp
    from expected_adjacent [OF k(1) le] obtain pre post where
      "expected (c' - 1) = pre @ [End k, Begin (Suc k)] @ post" by blast
    with shapeD_trace [OF wt]
    have "trace ?t = pre @ [End k, Begin (Suc k)] @ (post @ stage_trace c' st')"
      by simp
    then show ?thesis by blast
  qed
  with r a show ?thesis by blast
qed



lemmas mutex_defs = run_def init_def dispatch_def lock_def awaitLock_def promise_then_def
  fulfil_def unlock_def Let_def

theorem mutex_fifo_witness:
  "prefix (trace (run [Dispatch Async, Lock, Dispatch (Returns 5), Tick, Tick, Tick, Tick,
              Finish 1 (Threw 3), Tick, Tick, Tick, Tick, Tick]))
     (expected (tickets (run [Dispatch Async, Lock, Dispatch (Returns 5), Tick, Tick, Tick, Tick,
              Finish 1 (Threw 3), Tick, Tick, Tick, Tick, Tick])))
   \<and> trace (run [Dispatch Async, Lock, Dispatch (Returns 5), Tick, Tick, Tick, Tick,
              Finish 1 (Threw 3), Tick, Tick, Tick, Tick, Tick]) = [Begin 1, End 1, Begin 2]
   \<and> tickets (run [Dispatch Async, Lock, Dispatch (Returns 5), Tick, Tick, Tick, Tick,
              Finish 1 (Threw 3), Tick, Tick, Tick, Tick, Tick]) = 3"
proof -
  let ?acts = "[Dispatch Async, Lock, Dispatch (Returns 5), Tick, Tick, Tick, Tick,
              Finish 1 (Threw 3), Tick, Tick, Tick, Tick, Tick]"
  from mutex_fifo [of ?acts]
  have "prefix (trace (run ?acts)) (expected (tickets (run ?acts)))" by blast
  moreover have "trace (run ?acts) = [Begin 1, End 1, Begin 2]" "tickets (run ?acts) = 3"
    by (simp_all add: mutex_defs)
  ultimately show ?thesis by blast
qed

theorem mutex_fault_isolation_witness:
  "finished (run [Dispatch (Throws 7), Dispatch (Returns 1), Tick, Tick]) 1 = Some (Threw 7)
   \<and> 1 < tickets (run [Dispatch (Throws 7), Dispatch (Returns 1), Tick, Tick])
   \<and> (\<exists>m. (\<exists>pre post. trace (run ([Dispatch (Throws 7), Dispatch (Returns 1), Tick, Tick]
                            @ replicate m Tick)) = pre @ [End 1, Begin (Suc 1)] @ post)
         \<and> result (run ([Dispatch (Throws 7), Dispatch (Returns 1), Tick, Tick]
                            @ replicate m Tick)) 1 = Some (Threw 7))
   \<and> finished (run [Dispatch Async, Dispatch Async, Tick, Tick, Tick, Finish 1 (Threw 3)]) 1
       = Some (Threw 3)
   \<and> 1 < tickets (run [Dispatch Async, Dispatch Async, Tick, Tick, Tick, Finish 1 (Threw 3)])
   \<and> (\<exists>m. (\<exists>pre post. trace (run ([Dispatch Async, Dispatch Async, Tick, Tick, Tick,
                              Finish 1 (Threw 3)] @ replicate m Tick))
                   = pre @ [End 1, Begin (Suc 1)] @ post)
         \<and> result (run ([Dispatch Async, Dispatch Async, Tick, Tick, Tick,
                              Finish 1 (Threw 3)] @ replicate m Tick)) 1 = Some (Threw 3))"
proof -
  let ?a = "[Dispatch (Throws 7), Dispatch (Returns 1), Tick, Tick]"
  let ?b = "[Dispatch Async, Dispatch Async, Tick, Tick, Tick, Finish 1 (Threw 3)]"
  have a: "finished (run ?a) 1 = Some (Threw 7)" "1 < tickets (run ?a)"
    by (simp_all add: mutex_defs)
  have b: "finished (run ?b) 1 = Some (Threw 3)" "1 < tickets (run ?b)"
    by (simp_all add: mutex_defs)
  from mutex_fault_isolation [OF a] mutex_fault_isolation [OF b] a b
  show ?thesis by blast
qed

end
